theory Spec2Isabelle
  imports Main "HOL-Library.AList"
begin

section \<open>Data model\<close>

text \<open>
  The development embeds two classes: \<open>WebsocketTransport\<close> (the loopback socket
  transport) and \<open>Client\<close> (request correlation, connection life cycle, token refresh).
  Every object the code mutates is a field of an explicit state record; every callback
  the code registers (timers, one-shot listeners, promise continuations) is a value in
  that state, run by the function that models the event which triggers it.
\<close>

subsection \<open>Promises, errors, envelopes\<close>

text \<open>
  A promise is named by the call that created it (\<open>request\<close>, \<open>connect\<close> or
  \<open>destroy\<close>) and a serial number; a callback that closes over the \<open>resolve\<close> and
  \<open>reject\<close> of a promise holds its serial number.
\<close>

datatype promise_ref = RequestPromise nat | ConnectPromise nat | DestroyPromise nat

text \<open>
  \<open>connect\<close> is an \<open>async\<close> method: every call creates a promise of its own and
  hands that to the caller, and the promise adopts the one the body returns. A
  \<open>future\<close> is such a promise: the number of the call that created it, and the promise
  it adopts. No two calls hand out the same future; two futures that adopt the same
  promise settle alike. (\<open>request\<close> is \<open>async\<close> too, but the promise its body returns
  is created in the same call, one for one, so the caller's promise is named by it;
  the promise of \<open>destroy\<close> is the one of the \<open>async\<close> call itself.)
\<close>

datatype future = Future (call: nat) (adopted: promise_ref)

type_synonym timer_id = nat

text \<open>
  The enumerations \<open>RPC_ERROR_CODE\<close> and \<open>CUSTOM_RPC_ERROR_CODE\<close> are declared
  outside the source at hand; their members are kept symbolic. \<open>WireCode\<close> is a code
  taken from an inbound payload or a close reason (\<open>None\<close>: the field was absent).
\<close>

datatype error_code =
    RPC_UNKNOWN_ERROR
  | RPC_CONNECTION_TIMEOUT
  | RPC_CONNECTION_ENDED
  | WireCode "int option"

record rpc_error =
  code :: error_code
  message :: "string option"

record config =
  cdn_host :: "string option"

record payload =
  data_code :: "int option"
  data_message :: "string option"
  data_user :: "string option"
  data_config :: "config option"

record envelope =
  cmd :: string
  evt :: "string option"
  nonce :: "string option"
  data :: payload

record outgoing =
  out_cmd :: string
  out_args :: string
  out_evt :: "string option"
  out_nonce :: string

record token_response =
  access_token :: "string option"
  refresh_token :: "string option"
  token_type :: "string option"
  expires_in :: "nat option"

datatype js_error =
    RPCError rpc_error
  | Error string
  | TypeError string
  | SyntaxError string
  | InvalidAccessTokenResponse token_response

datatype resolution = Void | Reply envelope

datatype settled = Resolved resolution | Rejected js_error

datatype promise_state = Pending | Settled settled

text \<open>The reason a transport passes to its \<open>close\<close> listeners.\<close>

datatype close_reason = NoReason | TextReason string | Structured "int option" "string option"

subsection \<open>Callbacks held by the runtime\<close>

datatype timer_callback = ConnectTimeout nat | RefreshAccessToken

datatype transport_call = TConnect nat | TSend outgoing | TClose nat

datatype emit_arg = NoArg | Data payload | Text string

record fetch_request =
  fetch_method :: string
  fetch_path :: string
  fetch_form :: "(string \<times> string) list"
  fetch_content_type :: string
  fetch_authorization :: "string option"

text \<open>One entry of \<open>_nonceMap\<close>: \<open>resolve\<close> and \<open>reject\<close> settle the same promise.\<close>

record pending =
  promise :: nat
  error :: rpc_error

subsection \<open>The client\<close>

text \<open>
  The fields down to \<open>nonceMap\<close> are the fields of the class. The others are what the
  class hands to its runtime: the listeners registered with \<open>once\<close>, the timers
  scheduled and not yet fired or cleared, the number of calls of \<open>connect\<close> so far,
  the calls made on the transport, the HTTP requests issued, the events emitted, every
  call of a promise's \<open>resolve\<close> or \<open>reject\<close> in order, and the rejections nobody
  handles.
\<close>

record client =
  clientId :: string
  clientSecret :: "string option"
  accessToken :: "string option"
  refreshToken :: "string option"
  tokenType :: string
  user :: "string option"
  cdnHost :: string
  refreshTimeout :: "timer_id option"
  connectionPromise :: "promise_ref option"
  nonceMap :: "(string \<times> pending) list"
  connectedOnce :: "(timer_id \<times> nat) list"
  closeOnce :: nat
  timers :: "(timer_id \<times> nat \<times> timer_callback) list"
  nextTimer :: nat
  nextPromise :: nat
  connectCalls :: nat
  transportCalls :: "transport_call list"
  fetches :: "fetch_request list"
  emitted :: "(string option \<times> emit_arg) list"
  settlements :: "(promise_ref \<times> settled) list"
  unhandled :: "js_error list"

definition new_client :: "string \<Rightarrow> string option \<Rightarrow> client" where
  "new_client cid secret =
     \<lparr> clientId = cid, clientSecret = secret, accessToken = None, refreshToken = None,
       tokenType = ''Bearer'', user = None, cdnHost = ''https://cdn.discordapp.com'',
       refreshTimeout = None, connectionPromise = None, nonceMap = [],
       connectedOnce = [], closeOnce = 0, timers = [], nextTimer = 0, nextPromise = 0,
       connectCalls = 0, transportCalls = [], fetches = [], emitted = [], settlements = [], unhandled = [] \<rparr>"

text \<open>A promise keeps the first settlement it is given; later calls change nothing.\<close>

definition promise_state :: "client \<Rightarrow> promise_ref \<Rightarrow> promise_state" where
  "promise_state c p =
     (case map_of (settlements c) p of None \<Rightarrow> Pending | Some v \<Rightarrow> Settled v)"

text \<open>
  A future is in the state of the promise it adopts. (The adoption takes a turn of the
  job queue; the order of events here does not count it.)
\<close>

definition future_state :: "client \<Rightarrow> future \<Rightarrow> promise_state" where
  "future_state c f = promise_state c (adopted f)"

definition settle :: "promise_ref \<Rightarrow> settled \<Rightarrow> client \<Rightarrow> client" where
  "settle p v c = c\<lparr>settlements := settlements c @ [(p, v)]\<rparr>"

definition calls_on :: "promise_ref \<Rightarrow> client \<Rightarrow> settled list" where
  "calls_on p c = map snd (filter (\<lambda>x. fst x = p) (settlements c))"

definition clearTimeout :: "timer_id \<Rightarrow> client \<Rightarrow> client" where
  "clearTimeout t c = c\<lparr>timers := AList.delete t (timers c)\<rparr>"

section \<open>Client: events and the message handler\<close>

text \<open>
  The listener that \<open>connect\<close> registers with \<open>this.once("connected", ...)\<close>; it
  closes over the timeout handle and the promise of its call.
\<close>

definition connected_listener :: "timer_id \<times> nat \<Rightarrow> client \<Rightarrow> client" where
  "connected_listener l c =
     settle (ConnectPromise (snd l)) (Resolved Void)
       (clearTimeout (fst l)
          (c\<lparr>connectionPromise := None, closeOnce := Suc (closeOnce c)\<rparr>))"

text \<open>
  \<open>this.emit(name, arg)\<close>. Listeners of the embedding application are outside the
  class; the emission is recorded for them. The class's own one-shot listeners are on
  the event named \<open>connected\<close>, and run, in the order of their registration, whenever
  an event of that name is emitted; each is removed as it runs.
\<close>

definition emit :: "string option \<Rightarrow> emit_arg \<Rightarrow> client \<Rightarrow> client" where
  "emit name arg c =
     (let c1 = c\<lparr>emitted := emitted c @ [(name, arg)]\<rparr>
      in if name = Some ''connected''
         then fold connected_listener (connectedOnce c1) (c1\<lparr>connectedOnce := []\<rparr>)
         else c1)"

definition is_handshake :: "envelope \<Rightarrow> bool" where
  "is_handshake m \<longleftrightarrow> cmd m = ''DISPATCH'' \<and> evt m = Some ''READY''"

text \<open>\<open>message.nonce && this._nonceMap.has(message.nonce)\<close>: an empty string is falsy.\<close>

definition matching :: "envelope \<Rightarrow> client \<Rightarrow> (string \<times> pending) option" where
  "matching m c =
     (case nonce m of
        None \<Rightarrow> None
      | Some n \<Rightarrow>
          if n = [] then None
          else (case map_of (nonceMap c) n of None \<Rightarrow> None | Some e \<Rightarrow> Some (n, e)))"

definition reply_outcome :: "envelope \<Rightarrow> pending \<Rightarrow> settled" where
  "reply_outcome m e =
     (if evt m = Some ''ERROR''
      then Rejected (RPCError ((error e)\<lparr>code := WireCode (data_code (data m)),
                                         message := data_message (data m)\<rparr>))
      else Resolved (Reply m))"

definition truthy_cdn_host :: "payload \<Rightarrow> string option" where
  "truthy_cdn_host d =
     (case data_config d of
        None \<Rightarrow> None
      | Some cfg \<Rightarrow>
          (case cdn_host cfg of None \<Rightarrow> None | Some h \<Rightarrow> if h = [] then None else Some h))"

text \<open>The listener the constructor installs with \<open>this.transport.on("message", ...)\<close>.\<close>

definition on_message :: "envelope \<Rightarrow> client \<Rightarrow> client" where
  "on_message m c =
     (if is_handshake m then
        emit (Some ''connected'') NoArg
          (c\<lparr>user := (case data_user (data m) of None \<Rightarrow> user c | Some u \<Rightarrow> Some u),
             cdnHost := (case truthy_cdn_host (data m) of
                           None \<Rightarrow> cdnHost c | Some h \<Rightarrow> ''https://'' @ h)\<rparr>)
      else
        emit (evt m) (Data (data m))
          (case matching m c of
             None \<Rightarrow> c
           | Some (n, e) \<Rightarrow>
               (settle (RequestPromise (promise e)) (reply_outcome m e) c)
                 \<lparr>nonceMap := AList.delete n (nonceMap c)\<rparr>))"

text \<open>
  \<open>request(cmd, args, evt)\<close>; \<open>uuid\<close> is the value \<open>crypto.randomUUID()\<close> returns
  in this call. \<open>Map.set\<close> overwrites the entry of a key already present, in place.
  The constructor of \<open>RPCError\<close> is outside the source at hand; the message it gives a
  new error is left open (\<open>None\<close>), and every path that rejects with the error writes
  both its code and its message first.
\<close>

definition request :: "string \<Rightarrow> string \<Rightarrow> string option \<Rightarrow> string \<Rightarrow> client \<Rightarrow> promise_ref \<times> client" where
  "request c_cmd c_args c_evt uuid c =
     (let err = \<lparr>code = RPC_UNKNOWN_ERROR, message = None\<rparr>;
          p = nextPromise c
      in (RequestPromise p, c\<lparr>nextPromise := Suc (nextPromise c),
               transportCalls := transportCalls c @
                 [TSend \<lparr>out_cmd = c_cmd, out_args = c_args, out_evt = c_evt, out_nonce = uuid\<rparr>],
               nonceMap := AList.update uuid \<lparr>promise = p, error = err\<rparr> (nonceMap c)\<rparr>))"

section \<open>Client: connection life cycle\<close>

text \<open>
  \<open>connect()\<close>. Every call returns a new future. With a promise stored, the future
  adopts it and nothing else happens. Otherwise the executor of the new promise
  schedules the timeout (\<open>10e3\<close> milliseconds), registers the one-shot \<open>connected\<close>
  listener and calls \<open>this.transport.connect().catch(reject)\<close>; the promise is stored
  and the future adopts it. \<open>timeout.unref()\<close> only lets the process exit while the
  timer is pending.
\<close>

definition connect :: "client \<Rightarrow> future \<times> client" where
  "connect c =
     (case connectionPromise c of
        Some p \<Rightarrow> (Future (connectCalls c) p, c\<lparr>connectCalls := Suc (connectCalls c)\<rparr>)
      | None \<Rightarrow>
          (let p = nextPromise c; t = nextTimer c
           in (Future (connectCalls c) (ConnectPromise p),
               c\<lparr>connectCalls := Suc (connectCalls c),
                 nextPromise := Suc (nextPromise c),
                 nextTimer := Suc t,
                 timers := timers c @ [(t, 10000, ConnectTimeout p)],
                 connectedOnce := connectedOnce c @ [(t, p)],
                 transportCalls := transportCalls c @ [TConnect p],
                 connectionPromise := Some (ConnectPromise p)\<rparr>)))"

text \<open>
  The promise of the call \<open>this.transport.connect()\<close> made for connection promise
  \<open>p\<close> rejects with \<open>err\<close>: \<open>.catch(reject)\<close> passes the reason on.
\<close>

definition transport_connect_rejected :: "nat \<Rightarrow> js_error \<Rightarrow> client \<Rightarrow> client" where
  "transport_connect_rejected p err c =
     (if TConnect p \<in> set (transportCalls c)
      then settle (ConnectPromise p) (Rejected err) c else c)"

definition close_error :: "close_reason \<Rightarrow> rpc_error \<Rightarrow> rpc_error" where
  "close_error reason e =
     e\<lparr>code := (case reason of Structured k t \<Rightarrow> WireCode k | _ \<Rightarrow> RPC_CONNECTION_ENDED),
       message := (case reason of
                     Structured k t \<Rightarrow> t
                   | TextReason s \<Rightarrow> Some s
                   | NoReason \<Rightarrow> Some ''Connection ended'')\<rparr>"

text \<open>
  The listener registered with \<open>this.transport.once("close", ...)\<close> when
  \<open>connected\<close> is emitted. \<open>forEach\<close> visits the entries in insertion order, writes
  the code and the message into the error object of each entry and rejects with it.
\<close>

definition close_listener :: "close_reason \<Rightarrow> client \<Rightarrow> client" where
  "close_listener reason c =
     emit (Some ''disconnected'') NoArg
       (fold (\<lambda>ne. settle (RequestPromise (promise (snd ne)))
                      (Rejected (RPCError (close_error reason (error (snd ne))))))
          (nonceMap c)
          (c\<lparr>nonceMap :=
               map (\<lambda>ne. (fst ne, (snd ne)\<lparr>error := close_error reason (error (snd ne))\<rparr>))
                 (nonceMap c)\<rparr>))"

text \<open>The transport emits \<open>close\<close>: every one-shot listener registered so far runs once.\<close>

definition transport_close :: "close_reason \<Rightarrow> client \<Rightarrow> client" where
  "transport_close reason c = (close_listener reason ^^ closeOnce c) (c\<lparr>closeOnce := 0\<rparr>)"

section \<open>Client: token life cycle\<close>

text \<open>
  \<open>refreshAccessToken()\<close> up to its \<open>await\<close>: the debug event and the request
  handed to \<open>fetch\<close>, which adds the \<open>Authorization\<close> header when an access token is
  stored and non-empty.
\<close>

definition or_empty :: "string option \<Rightarrow> string" where
  "or_empty x = (case x of None \<Rightarrow> [] | Some s \<Rightarrow> s)"

definition authorization :: "client \<Rightarrow> string option" where
  "authorization c =
     (case accessToken c of
        None \<Rightarrow> None
      | Some a \<Rightarrow> if a = [] then None else Some (tokenType c @ '' '' @ a))"

definition refreshAccessToken :: "client \<Rightarrow> client" where
  "refreshAccessToken c =
     (emit (Some ''debug'') (Text ''CLIENT | Refreshing access token!'') c)
       \<lparr>fetches := fetches c @
          [\<lparr>fetch_method = ''POST'', fetch_path = ''/oauth2/token'',
            fetch_form = [(''client_id'', clientId c),
                          (''client_secret'', or_empty (clientSecret c)),
                          (''grant_type'', ''refresh_token''),
                          (''refresh_token'', or_empty (refreshToken c))],
            fetch_content_type = ''application/x-www-form-urlencoded'',
            fetch_authorization = authorization c\<rparr>]\<rparr>"

text \<open>
  \<open>hanleAccessTokenResponse(data)\<close>. A field of \<open>data\<close> is \<open>None\<close> when the key is
  not \<open>in\<close> the object. The \<open>TypeError\<close> thrown carries the rendering of \<open>data\<close>.
\<close>

definition hanleAccessTokenResponse :: "token_response \<Rightarrow> client \<Rightarrow> js_error + client" where
  "hanleAccessTokenResponse d c =
     (if access_token d = None \<or> refresh_token d = None \<or>
         expires_in d = None \<or> token_type d = None
      then Inl (InvalidAccessTokenResponse d)
      else Inr (c\<lparr>accessToken := access_token d,
                  refreshToken := refresh_token d,
                  tokenType := the (token_type d),
                  refreshTimeout := Some (nextTimer c),
                  timers := timers c @ [(nextTimer c, the (expires_in d), RefreshAccessToken)],
                  nextTimer := Suc (nextTimer c)\<rparr>))"

text \<open>
  The rest of \<open>refreshAccessToken\<close>, run when \<open>fetch\<close> delivers \<open>d\<close>. The timer
  callback discards the promise (\<open>void\<close>), so an exception is a rejection nobody handles.
\<close>

definition refresh_response :: "token_response \<Rightarrow> client \<Rightarrow> client" where
  "refresh_response d c =
     (case hanleAccessTokenResponse d c of
        Inl e \<Rightarrow> c\<lparr>unhandled := unhandled c @ [e]\<rparr>
      | Inr c' \<Rightarrow> c')"

definition run_callback :: "timer_callback \<Rightarrow> client \<Rightarrow> client" where
  "run_callback cb c =
     (case cb of
        ConnectTimeout p \<Rightarrow>
          settle (ConnectPromise p)
            (Rejected (RPCError \<lparr>code = RPC_CONNECTION_TIMEOUT,
                                 message = Some ''Connection timed out''\<rparr>))
            (c\<lparr>connectionPromise := None\<rparr>)
      | RefreshAccessToken \<Rightarrow> refreshAccessToken c)"

text \<open>A timer fires only while it is scheduled; it is one-shot.\<close>

definition fire_timer :: "timer_id \<Rightarrow> client \<Rightarrow> client" where
  "fire_timer t c =
     (case map_of (timers c) t of
        None \<Rightarrow> c
      | Some dc \<Rightarrow> run_callback (snd dc) (c\<lparr>timers := AList.delete t (timers c)\<rparr>))"

text \<open>
  \<open>destroy()\<close> up to its \<open>await\<close>, and its completion when the promise of
  \<open>this.transport.close()\<close> resolves.
\<close>

definition destroy :: "client \<Rightarrow> promise_ref \<times> client" where
  "destroy c =
     (let c1 = (case refreshTimeout c of
                  None \<Rightarrow> c
                | Some t \<Rightarrow> (clearTimeout t c)\<lparr>refreshTimeout := None, refreshToken := None\<rparr>);
          p = nextPromise c1
      in (DestroyPromise p, c1\<lparr>nextPromise := Suc (nextPromise c1),
                transportCalls := transportCalls c1 @ [TClose p]\<rparr>))"

definition transport_close_resolved :: "nat \<Rightarrow> client \<Rightarrow> client" where
  "transport_close_resolved p c =
     (if TClose p \<in> set (transportCalls c)
      then settle (DestroyPromise p) (Resolved Void) c else c)"

section \<open>Client: runs\<close>

text \<open>
  Everything that can happen to a client: a call of one of its methods, or the runtime
  running one of the callbacks the client has handed out.
\<close>

datatype event =
    CallRequest string string "string option" string
  | Message envelope
  | CallConnect
  | ConnectRejected nat js_error
  | Close close_reason
  | TimerFires timer_id
  | RefreshResponse token_response
  | CallDestroy
  | CloseResolved nat

fun step :: "event \<Rightarrow> client \<Rightarrow> client" where
  "step (CallRequest a b e u) c = snd (request a b e u c)"
| "step (Message m) c = on_message m c"
| "step CallConnect c = snd (connect c)"
| "step (ConnectRejected p err) c = transport_connect_rejected p err c"
| "step (Close reason) c = transport_close reason c"
| "step (TimerFires t) c = fire_timer t c"
| "step (RefreshResponse d) c = refresh_response d c"
| "step CallDestroy c = snd (destroy c)"
| "step (CloseResolved p) c = transport_close_resolved p c"

fun run :: "event list \<Rightarrow> client \<Rightarrow> client" where
  "run [] c = c"
| "run (ev # evs) c = run evs (step ev c)"

section \<open>The socket transport\<close>

datatype socket = Socket string

datatype probe = Opened | Errored | Unsettled

datatype loop_end = Found socket | Exhausted | Stalled

record websocket_transport =
  ws :: "socket option"
  wired :: "socket list"

definition digit :: "nat \<Rightarrow> char" where
  "digit n = ''0123456789'' ! n"

function decimal :: "nat \<Rightarrow> string" where
  "decimal n = (if n < 10 then [digit n] else decimal (n div 10) @ [digit (n mod 10)])"
  by pat_completeness auto
termination
  by (relation "measure id") auto

definition url :: "string \<Rightarrow> nat \<Rightarrow> string" where
  "url cid i = ''ws://127.0.0.1:'' @ decimal (6463 + i) @ ''/?v=1&client_id='' @ cid"

text \<open>
  The \<open>for\<close> loop of \<open>connect\<close>, from index \<open>i\<close>. \<open>env\<close> tells how the handshake on
  a URL ends: \<open>onopen\<close> fires, \<open>onerror\<close> fires, or neither ever does, and then the
  \<open>await\<close> never returns. The result lists the URLs a socket was created for.
\<close>

function probe_from :: "(string \<Rightarrow> probe) \<Rightarrow> string \<Rightarrow> nat \<Rightarrow> string list \<times> loop_end" where
  "probe_from env cid i =
     (if i < 10 then
        (case env (url cid i) of
           Opened \<Rightarrow> ([url cid i], Found (Socket (url cid i)))
         | Errored \<Rightarrow> (case probe_from env cid (Suc i) of (us, r) \<Rightarrow> (url cid i # us, r))
         | Unsettled \<Rightarrow> ([url cid i], Stalled))
      else ([], Exhausted))"
  by pat_completeness auto
termination
  by (relation "measure (\<lambda>(env, cid, i). 10 - i)") auto

text \<open>
  One call of \<open>connect()\<close>: the URLs probed, the transport afterwards, how the returned
  promise settles (\<open>None\<close>: never) and the exception that escapes the executor.
  After the loop the code rejects when \<open>this.ws\<close> is unset and goes on to assign the
  handlers of \<open>this.ws\<close>.
\<close>

record connect_run =
  probed :: "string list"
  after :: websocket_transport
  outcome :: "settled option"
  thrown :: "js_error option"

definition WebsocketTransport_connect ::
    "(string \<Rightarrow> probe) \<Rightarrow> string \<Rightarrow> websocket_transport \<Rightarrow> connect_run" where
  "WebsocketTransport_connect env cid t =
     (case probe_from env cid 0 of
        (us, Stalled) \<Rightarrow> \<lparr>probed = us, after = t, outcome = None, thrown = None\<rparr>
      | (us, Found s) \<Rightarrow>
          \<lparr>probed = us, after = \<lparr>ws = Some s, wired = wired t @ [s]\<rparr>,
           outcome = Some (Resolved Void), thrown = None\<rparr>
      | (us, Exhausted) \<Rightarrow>
          (case ws t of
             None \<Rightarrow>
               \<lparr>probed = us, after = t,
                outcome = Some (Rejected (Error ''Failed to connect to websocket'')),
                thrown = Some (TypeError ''Cannot set properties of undefined'')\<rparr>
           | Some s \<Rightarrow>
               \<lparr>probed = us, after = t\<lparr>wired := wired t @ [s]\<rparr>,
                outcome = None, thrown = None\<rparr>))"

text \<open>
  What the transport emits when socket \<open>s\<close> delivers a frame or closes: the handlers
  exist only on sockets that \<open>connect\<close> has wired. \<open>parse\<close> is \<open>JSON.parse\<close> on
  the text of the frame, \<open>None\<close> where it throws; the handler then throws the
  \<open>SyntaxError\<close> (here carrying the frame) and emits nothing.
\<close>

datatype transport_event = MessageEvent envelope | CloseEvent

definition socket_message ::
    "(string \<Rightarrow> envelope option) \<Rightarrow> socket \<Rightarrow> string \<Rightarrow> websocket_transport
       \<Rightarrow> js_error + transport_event list" where
  "socket_message parse s frame t =
     (if s \<in> set (wired t)
      then (case parse frame of
              None \<Rightarrow> Inl (SyntaxError frame)
            | Some m \<Rightarrow> Inr [MessageEvent m])
      else Inr [])"

definition socket_close :: "socket \<Rightarrow> websocket_transport \<Rightarrow> transport_event list" where
  "socket_close s t = (if s \<in> set (wired t) then [CloseEvent] else [])"

section \<open>Well-formed states\<close>

text \<open>
  The serial numbers a state refers to have been handed out: every promise and timer
  that the table, a listener, a timer, a recorded call or a recorded settlement names is
  older than the next one to be created. A refresh token is stored only together with a
  timer handle. A new client is well-formed and every event keeps a state well-formed.
\<close>

definition serial :: "promise_ref \<Rightarrow> nat" where
  "serial p = (case p of RequestPromise k \<Rightarrow> k | ConnectPromise k \<Rightarrow> k | DestroyPromise k \<Rightarrow> k)"

fun callback_ok :: "nat \<Rightarrow> timer_callback \<Rightarrow> bool" where
  "callback_ok n (ConnectTimeout k) = (k < n)"
| "callback_ok n RefreshAccessToken = True"

fun call_ok :: "nat \<Rightarrow> transport_call \<Rightarrow> bool" where
  "call_ok n (TConnect k) = (k < n)"
| "call_ok n (TSend x) = True"
| "call_ok n (TClose k) = (k < n)"

fun handle_ok :: "nat \<Rightarrow> timer_id option \<Rightarrow> bool" where
  "handle_ok n None = True"
| "handle_ok n (Some t) = (t < n)"

definition well_formed :: "client \<Rightarrow> bool" where
  "well_formed c \<longleftrightarrow>
     (\<forall>ne\<in>set (nonceMap c). promise (snd ne) < nextPromise c) \<and>
     (\<forall>x\<in>set (settlements c). serial (fst x) < nextPromise c) \<and>
     (\<forall>l\<in>set (connectedOnce c). snd l < nextPromise c) \<and>
     (\<forall>x\<in>set (timers c). fst x < nextTimer c \<and> callback_ok (nextPromise c) (snd (snd x))) \<and>
     (\<forall>tc\<in>set (transportCalls c). call_ok (nextPromise c) tc) \<and>
     (refreshToken c \<noteq> None \<longrightarrow> refreshTimeout c \<noteq> None) \<and>
     handle_ok (nextTimer c) (refreshTimeout c)"

section \<open>Requests along a run\<close>

text \<open>
  \<open>first_reply n evs\<close> is the first inbound envelope of the run that bears token \<open>n\<close>
  and is not taken by the handshake branch of the handler. \<open>reuses n\<close> holds of a
  request that draws token \<open>n\<close>; \<open>is_close\<close> of the transport's \<open>close\<close> event.
\<close>

definition is_close :: "event \<Rightarrow> bool" where
  "is_close ev = (case ev of Close r \<Rightarrow> True | _ \<Rightarrow> False)"

definition reuses :: "string \<Rightarrow> event \<Rightarrow> bool" where
  "reuses n ev = (case ev of CallRequest a b e u \<Rightarrow> u = n | _ \<Rightarrow> False)"

fun first_reply :: "string \<Rightarrow> event list \<Rightarrow> envelope option" where
  "first_reply n [] = None"
| "first_reply n (ev # evs) =
     (case ev of
        Message m \<Rightarrow> if nonce m = Some n \<and> \<not> is_handshake m then Some m else first_reply n evs
      | _ \<Rightarrow> first_reply n evs)"

text \<open>
  Two invariants of the proofs. No entry of the table refers to request promise \<open>p\<close>;
  and token \<open>n\<close> is in the table with entry \<open>e\<close>, the only entry that refers to \<open>e\<close>'s
  promise.
\<close>

definition unref :: "nat \<Rightarrow> client \<Rightarrow> bool" where
  "unref p c \<longleftrightarrow> p < nextPromise c \<and> (\<forall>ne\<in>set (nonceMap c). promise (snd ne) \<noteq> p)"

definition waiting :: "string \<Rightarrow> pending \<Rightarrow> client \<Rightarrow> bool" where
  "waiting n e c \<longleftrightarrow>
     n \<noteq> [] \<and> map_of (nonceMap c) n = Some e \<and> promise e < nextPromise c \<and>
     (\<forall>ne\<in>set (nonceMap c). promise (snd ne) = promise e \<longrightarrow> fst ne = n)"

definition requests_only :: "(promise_ref \<times> settled) list \<Rightarrow> bool" where
  "requests_only xs \<longleftrightarrow> (\<forall>x\<in>set xs. case fst x of RequestPromise k \<Rightarrow> True | _ \<Rightarrow> False)"

text \<open>The error a close with reason \<open>r\<close> rejects with, written out by reason.\<close>

definition connection_ended :: "close_reason \<Rightarrow> rpc_error" where
  "connection_ended r =
     (case r of
        Structured k t \<Rightarrow> \<lparr>code = WireCode k, message = t\<rparr>
      | TextReason s \<Rightarrow> \<lparr>code = RPC_CONNECTION_ENDED, message = Some s\<rparr>
      | NoReason \<Rightarrow> \<lparr>code = RPC_CONNECTION_ENDED, message = Some ''Connection ended''\<rparr>)"

section \<open>Between destroy and its completion\<close>



section \<open>Connection attempts in flight\<close>

definition emits_connected :: "envelope \<Rightarrow> bool" where
  "emits_connected m \<longleftrightarrow> is_handshake m \<or> evt m = Some ''connected''"

definition fires_connect_timeout :: "timer_id \<Rightarrow> client \<Rightarrow> bool" where
  "fires_connect_timeout t c =
     (case map_of (timers c) t of
        None \<Rightarrow> False
      | Some dc \<Rightarrow> (case snd dc of ConnectTimeout k \<Rightarrow> True | RefreshAccessToken \<Rightarrow> False))"

text \<open>
  An event is calm in a state when it neither fires a connection timeout nor emits
  \<open>connected\<close>; \<open>rejects k\<close> holds of the rejection of the transport's
  \<open>connect()\<close> made for connection promise \<open>k\<close>.
\<close>

definition calm :: "event \<Rightarrow> client \<Rightarrow> bool" where
  "calm ev c =
     (case ev of
        TimerFires t \<Rightarrow> \<not> fires_connect_timeout t c
      | Message m \<Rightarrow> \<not> emits_connected m
      | _ \<Rightarrow> True)"

definition rejects :: "nat \<Rightarrow> event \<Rightarrow> bool" where
  "rejects k ev = (case ev of ConnectRejected p err \<Rightarrow> p = k | _ \<Rightarrow> False)"

fun calm_run :: "event list \<Rightarrow> client \<Rightarrow> bool" where
  "calm_run [] c = True"
| "calm_run (ev # evs) c = (calm ev c \<and> calm_run evs (step ev c))"

definition is_connect_call :: "transport_call \<Rightarrow> bool" where
  "is_connect_call tc = (case tc of TConnect k \<Rightarrow> True | _ \<Rightarrow> False)"

text \<open>
  The attempt that created connection promise \<open>k\<close> with timeout \<open>t\<close> is in flight: the
  promise is the stored one, the timeout is scheduled, the one-shot \<open>connected\<close>
  listener of the attempt is registered and the transport's \<open>connect\<close> has been called.
\<close>

definition in_flight :: "nat \<Rightarrow> timer_id \<Rightarrow> client \<Rightarrow> bool" where
  "in_flight k t c \<longleftrightarrow>
     connectionPromise c = Some (ConnectPromise k) \<and>
     map_of (timers c) t = Some (10000, ConnectTimeout k) \<and>
     (t, k) \<in> set (connectedOnce c) \<and>
     TConnect k \<in> set (transportCalls c) \<and>
     t < nextTimer c \<and> refreshTimeout c \<noteq> Some t"

section \<open>Concrete inputs\<close>

definition no_data :: payload where
  "no_data = \<lparr>data_code = None, data_message = None, data_user = None, data_config = None\<rparr>"

definition ready_dispatch :: envelope where
  "ready_dispatch =
     \<lparr>cmd = ''DISPATCH'', evt = Some ''READY'', nonce = None,
      data = \<lparr>data_code = None, data_message = None, data_user = Some ''user'',
              data_config = Some \<lparr>cdn_host = Some ''cdn.discordapp.com''\<rparr>\<rparr>\<rparr>"

definition handshake_with_token :: envelope where
  "handshake_with_token =
     \<lparr>cmd = ''DISPATCH'', evt = Some ''READY'', nonce = Some ''n1'', data = no_data\<rparr>"

definition subscribe_reply :: envelope where
  "subscribe_reply =
     \<lparr>cmd = ''SUBSCRIBE'', evt = Some ''ACTIVITY_JOIN'', nonce = Some ''n1'', data = no_data\<rparr>"

definition error_reply :: envelope where
  "error_reply =
     \<lparr>cmd = ''GET_GUILD'', evt = Some ''ERROR'', nonce = Some ''n1'',
      data = \<lparr>data_code = Some 4000, data_message = Some ''Invalid guild'',
              data_user = None, data_config = None\<rparr>\<rparr>"

definition guilds_reply :: envelope where
  "guilds_reply = \<lparr>cmd = ''GET_GUILDS'', evt = None, nonce = Some ''n2'', data = no_data\<rparr>"

definition one_pending :: client where
  "one_pending =
     snd (request ''SUBSCRIBE'' ''{}'' (Some ''ACTIVITY_JOIN'') ''n1'' (new_client ''1'' None))"

definition connected_two_pending :: client where
  "connected_two_pending =
     run [CallConnect, Message ready_dispatch,
          CallRequest ''GET_GUILDS'' ''{}'' None ''n1'',
          CallRequest ''GET_CHANNELS'' ''{}'' None ''n2''] (new_client ''1'' None)"

definition full_tokens :: token_response where
  "full_tokens =
     \<lparr>access_token = Some ''A1'', refresh_token = Some ''R1'',
      token_type = Some ''Bearer'', expires_in = Some 604800\<rparr>"

definition no_refresh_token :: token_response where
  "no_refresh_token =
     \<lparr>access_token = Some ''A1'', refresh_token = None,
      token_type = Some ''Bearer'', expires_in = Some 604800\<rparr>"

definition authorized_client :: client where
  "authorized_client = refresh_response full_tokens (new_client ''1'' (Some ''s3cret''))"


definition failed_attempt :: client where
  "failed_attempt =
     transport_connect_rejected 0 (Error ''Failed to connect to websocket'')
       (snd (connect (new_client ''1'' None)))"

definition retries :: "event list" where
  "retries = [CallConnect, CallRequest ''GET_GUILDS'' ''{}'' None ''n1'', CallConnect]"

definition other_tokens :: token_response where
  "other_tokens =
     \<lparr>access_token = Some ''A2'', refresh_token = Some ''R2'',
      token_type = Some ''Bearer'', expires_in = Some 604800\<rparr>"

definition connected_transport :: "string \<Rightarrow> websocket_transport" where
  "connected_transport cid =
     after (WebsocketTransport_connect (\<lambda>u. Opened) cid \<lparr>ws = None, wired = []\<rparr>)"

definition only_6472 :: "string \<Rightarrow> probe" where
  "only_6472 u = (if u = ''ws://127.0.0.1:6472/?v=1&client_id=42'' then Opened else Errored)"

section \<open>What each operation changes\<close>

lemma fold_connected_listener_fields:
  "emitted (fold connected_listener ls c) = emitted c"
  "nonceMap (fold connected_listener ls c) = nonceMap c"
  "nextPromise (fold connected_listener ls c) = nextPromise c"
  "nextTimer (fold connected_listener ls c) = nextTimer c"
  "connectedOnce (fold connected_listener ls c) = connectedOnce c"
  "transportCalls (fold connected_listener ls c) = transportCalls c"
  "fetches (fold connected_listener ls c) = fetches c"
  "unhandled (fold connected_listener ls c) = unhandled c"
  "accessToken (fold connected_listener ls c) = accessToken c"
  "refreshToken (fold connected_listener ls c) = refreshToken c"
  "tokenType (fold connected_listener ls c) = tokenType c"
  "refreshTimeout (fold connected_listener ls c) = refreshTimeout c"
  "clientId (fold connected_listener ls c) = clientId c"
  "clientSecret (fold connected_listener ls c) = clientSecret c"
  "user (fold connected_listener ls c) = user c"
  "cdnHost (fold connected_listener ls c) = cdnHost c"
  by (induction ls arbitrary: c; simp add: connected_listener_def settle_def clearTimeout_def)+

lemma fold_connected_listener_settlements:
  "settlements (fold connected_listener ls c) =
     settlements c @ map (\<lambda>l. (ConnectPromise (snd l), Resolved Void)) ls"
  by (induction ls arbitrary: c) (simp_all add: connected_listener_def settle_def clearTimeout_def)

lemma fold_connected_listener_closeOnce:
  "closeOnce (fold connected_listener ls c) = closeOnce c + length ls"
  by (induction ls arbitrary: c) (simp_all add: connected_listener_def settle_def clearTimeout_def)

lemma fold_connected_listener_connectionPromise:
  "connectionPromise (fold connected_listener ls c) =
     (if ls = [] then connectionPromise c else None)"
  by (induction ls arbitrary: c) (simp_all add: connected_listener_def settle_def clearTimeout_def)

lemma fold_connected_listener_timers:
  "timers (fold connected_listener ls c) = fold (\<lambda>l. AList.delete (fst l)) ls (timers c)"
  by (induction ls arbitrary: c) (simp_all add: connected_listener_def settle_def clearTimeout_def)

lemma emit_fields:
  "emitted (emit name arg c) = emitted c @ [(name, arg)]"
  "nonceMap (emit name arg c) = nonceMap c"
  "nextPromise (emit name arg c) = nextPromise c"
  "nextTimer (emit name arg c) = nextTimer c"
  "transportCalls (emit name arg c) = transportCalls c"
  "fetches (emit name arg c) = fetches c"
  "unhandled (emit name arg c) = unhandled c"
  "accessToken (emit name arg c) = accessToken c"
  "refreshToken (emit name arg c) = refreshToken c"
  "tokenType (emit name arg c) = tokenType c"
  "refreshTimeout (emit name arg c) = refreshTimeout c"
  "clientId (emit name arg c) = clientId c"
  "clientSecret (emit name arg c) = clientSecret c"
  "user (emit name arg c) = user c"
  "cdnHost (emit name arg c) = cdnHost c"
  by (simp_all add: emit_def Let_def fold_connected_listener_fields)

lemma emit_settlements:
  "settlements (emit name arg c) =
     settlements c @ (if name = Some ''connected''
                      then map (\<lambda>l. (ConnectPromise (snd l), Resolved Void)) (connectedOnce c)
                      else [])"
  by (simp add: emit_def Let_def fold_connected_listener_settlements)

lemma emit_connectedOnce:
  "connectedOnce (emit name arg c) = (if name = Some ''connected'' then [] else connectedOnce c)"
  by (simp add: emit_def Let_def fold_connected_listener_fields)

lemma emit_closeOnce:
  "closeOnce (emit name arg c) =
     (if name = Some ''connected'' then closeOnce c + length (connectedOnce c) else closeOnce c)"
  by (simp add: emit_def Let_def fold_connected_listener_closeOnce)

lemma emit_connectionPromise:
  "connectionPromise (emit name arg c) =
     (if name = Some ''connected'' \<and> connectedOnce c \<noteq> [] then None else connectionPromise c)"
  by (simp add: emit_def Let_def fold_connected_listener_connectionPromise)

lemma emit_timers:
  "timers (emit name arg c) =
     (if name = Some ''connected''
      then fold (\<lambda>l. AList.delete (fst l)) (connectedOnce c) (timers c) else timers c)"
  by (simp add: emit_def Let_def fold_connected_listener_timers)

lemma calls_on_nonceMap_update [simp]: "calls_on p (c\<lparr>nonceMap := x\<rparr>) = calls_on p c"
  by (simp add: calls_on_def)

lemma quiet_step:
  assumes "\<not> is_close ev" "\<And>a b e u. ev \<noteq> CallRequest a b e u" "\<And>m. ev \<noteq> Message m"
  shows "nonceMap (step ev c) = nonceMap c"
    and "calls_on (RequestPromise k) (step ev c) = calls_on (RequestPromise k) c"
    and "nextPromise c \<le> nextPromise (step ev c)"
  using assms
  by (cases ev; auto simp add: is_close_def filter_empty_conv connect_def transport_connect_rejected_def fire_timer_def
        run_callback_def refreshAccessToken_def refresh_response_def hanleAccessTokenResponse_def
        destroy_def transport_close_resolved_def emit_fields calls_on_def settle_def clearTimeout_def
        emit_settlements Let_def
        split: option.splits timer_callback.splits)+

lemma fold_settle_settlements:
  "settlements (fold (\<lambda>x. settle (f x) (g x)) xs c) = settlements c @ map (\<lambda>x. (f x, g x)) xs"
  by (induction xs arbitrary: c) (simp_all add: settle_def)

lemma fold_settle_fields:
  "nonceMap (fold (\<lambda>x. settle (f x) (g x)) xs c) = nonceMap c"
  "nextPromise (fold (\<lambda>x. settle (f x) (g x)) xs c) = nextPromise c"
  "emitted (fold (\<lambda>x. settle (f x) (g x)) xs c) = emitted c"
  "closeOnce (fold (\<lambda>x. settle (f x) (g x)) xs c) = closeOnce c"
  "connectedOnce (fold (\<lambda>x. settle (f x) (g x)) xs c) = connectedOnce c"
  "connectionPromise (fold (\<lambda>x. settle (f x) (g x)) xs c) = connectionPromise c"
  "timers (fold (\<lambda>x. settle (f x) (g x)) xs c) = timers c"
  by (induction xs arbitrary: c; simp add: settle_def)+

lemma close_listener_settlements:
  "settlements (close_listener r c) =
     settlements c @
       map (\<lambda>ne. (RequestPromise (promise (snd ne)),
                   Rejected (RPCError (close_error r (error (snd ne)))))) (nonceMap c)"
  by (simp add: close_listener_def emit_settlements fold_settle_settlements)

lemma close_listener_nonceMap:
  "nonceMap (close_listener r c) =
     map (\<lambda>ne. (fst ne, (snd ne)\<lparr>error := close_error r (error (snd ne))\<rparr>)) (nonceMap c)"
  by (simp add: close_listener_def emit_fields fold_settle_fields)

lemma close_listener_fields:
  "nextPromise (close_listener r c) = nextPromise c"
  "emitted (close_listener r c) = emitted c @ [(Some ''disconnected'', NoArg)]"
  "closeOnce (close_listener r c) = closeOnce c"
  by (simp_all add: close_listener_def emit_fields emit_closeOnce fold_settle_fields)

section \<open>A promise no table entry refers to is never settled again\<close>

lemma close_listener_unref:
  "unref p c \<Longrightarrow> unref p (close_listener r c)"
  by (auto simp add: unref_def close_listener_fields close_listener_nonceMap)

lemma close_listener_calls_unref:
  "unref p c \<Longrightarrow> calls_on (RequestPromise p) (close_listener r c) = calls_on (RequestPromise p) c"
  by (auto simp add: unref_def calls_on_def close_listener_settlements filter_empty_conv)

lemma funpow_close_listener_unref:
  "unref p c \<Longrightarrow> unref p ((close_listener r ^^ k) c) \<and>
     calls_on (RequestPromise p) ((close_listener r ^^ k) c) = calls_on (RequestPromise p) c"
  by (induction k) (simp_all add: close_listener_unref close_listener_calls_unref)

lemma unref_closeOnce [simp]: "unref p (c\<lparr>closeOnce := k\<rparr>) = unref p c"
  by (simp add: unref_def)

lemma calls_on_closeOnce [simp]: "calls_on p (c\<lparr>closeOnce := k\<rparr>) = calls_on p c"
  by (simp add: calls_on_def)

lemma transport_close_unref:
  "unref p c \<Longrightarrow> unref p (transport_close r c) \<and>
     calls_on (RequestPromise p) (transport_close r c) = calls_on (RequestPromise p) c"
  using funpow_close_listener_unref [where p = p and c = "c\<lparr>closeOnce := 0\<rparr>" and r = r and k = "closeOnce c"]
  by (simp add: transport_close_def)

lemma set_update_subset: "set (AList.update k v al) \<subseteq> insert (k, v) (set al)"
  by (induction al) auto

lemma on_message_nonceMap:
  "nonceMap (on_message m c) =
     (if is_handshake m then nonceMap c
      else case matching m c of None \<Rightarrow> nonceMap c | Some ne \<Rightarrow> AList.delete (fst ne) (nonceMap c))"
  by (simp add: on_message_def emit_fields settle_def split: option.split prod.split)

lemma on_message_settlements:
  "settlements (on_message m c) =
     settlements c @
       (if is_handshake m
        then map (\<lambda>l. (ConnectPromise (snd l), Resolved Void)) (connectedOnce c)
        else (case matching m c of
                None \<Rightarrow> []
              | Some ne \<Rightarrow> [(RequestPromise (promise (snd ne)), reply_outcome m (snd ne))]) @
             (if evt m = Some ''connected''
              then map (\<lambda>l. (ConnectPromise (snd l), Resolved Void)) (connectedOnce c)
              else []))"
  by (simp add: on_message_def emit_settlements settle_def split: option.split prod.split)

lemma filter_request_connect [simp]:
  "filter (\<lambda>x. fst x = RequestPromise p) (map (\<lambda>l. (ConnectPromise (f l), v)) ls) = []"
  by (simp add: filter_empty_conv)

lemma on_message_calls:
  "calls_on (RequestPromise p) (on_message m c) =
     calls_on (RequestPromise p) c @
       (if is_handshake m then []
        else case matching m c of
               None \<Rightarrow> []
             | Some ne \<Rightarrow> if promise (snd ne) = p then [reply_outcome m (snd ne)] else [])"
  by (simp add: calls_on_def on_message_settlements split: option.split)

lemma on_message_nextPromise: "nextPromise (on_message m c) = nextPromise c"
  by (simp add: on_message_def emit_fields settle_def split: option.split prod.split)

lemma matching_in_set: "matching m c = Some ne \<Longrightarrow> ne \<in> set (nonceMap c)"
  by (auto simp add: matching_def dest: map_of_SomeD split: option.splits if_splits)

lemma in_set_delete: "x \<in> set (AList.delete k al) \<Longrightarrow> x \<in> set al"
  by (auto simp add: AList.delete_eq)

lemma on_message_unref:
  "unref p c \<Longrightarrow> unref p (on_message m c) \<and>
     calls_on (RequestPromise p) (on_message m c) = calls_on (RequestPromise p) c"
proof -
  assume u: "unref p c"
  have "\<And>ne. matching m c = Some ne \<Longrightarrow> promise (snd ne) \<noteq> p"
    using u matching_in_set [of m c] by (auto simp add: unref_def)
  with u show ?thesis
    by (auto simp add: unref_def on_message_nonceMap on_message_calls on_message_nextPromise
          dest: in_set_delete split: option.splits)
qed

lemma in_set_update: "x \<in> set (AList.update k v al) \<Longrightarrow> x = (k, v) \<or> x \<in> set al"
  using set_update_subset [of k v al] by auto

lemma request_fields:
  "nonceMap (snd (request a b e u c)) =
     AList.update u \<lparr>promise = nextPromise c, error = \<lparr>code = RPC_UNKNOWN_ERROR, message = None\<rparr>\<rparr> (nonceMap c)"
  "nextPromise (snd (request a b e u c)) = Suc (nextPromise c)"
  "settlements (snd (request a b e u c)) = settlements c"
  "fst (request a b e u c) = RequestPromise (nextPromise c)"
  by (simp_all add: request_def Let_def)

lemma request_unref:
  "unref p c \<Longrightarrow> unref p (snd (request a b e u c)) \<and>
     calls_on (RequestPromise p) (snd (request a b e u c)) = calls_on (RequestPromise p) c"
  by (auto simp add: unref_def request_fields calls_on_def dest!: in_set_update)

lemma step_unref:
  "unref p c \<Longrightarrow> unref p (step ev c) \<and>
     calls_on (RequestPromise p) (step ev c) = calls_on (RequestPromise p) c"
proof (cases "is_close ev \<or> (\<exists>a b e u. ev = CallRequest a b e u) \<or> (\<exists>m. ev = Message m)")
  case True
  assume "unref p c"
  with True show ?thesis
    by (auto simp add: is_close_def transport_close_unref on_message_unref request_unref
          split: event.splits)
next
  case False
  assume u: "unref p c"
  from False have q: "\<not> is_close ev" "\<And>a b e u. ev \<noteq> CallRequest a b e u" "\<And>m. ev \<noteq> Message m"
    by auto
  from quiet_step(1) [OF q, of c] quiet_step(2) [OF q, of p c] quiet_step(3) [OF q, of c] u
  show ?thesis
    by (simp add: unref_def)
qed

lemma run_unref:
  "unref p c \<Longrightarrow> unref p (run evs c) \<and>
     calls_on (RequestPromise p) (run evs c) = calls_on (RequestPromise p) c"
  by (induction evs arbitrary: c) (simp_all add: step_unref)

section \<open>A pending request along a run\<close>

lemma close_listener_absent:
  "map_of (nonceMap c) n = None \<Longrightarrow> map_of (nonceMap (close_listener r c)) n = None"
  by (simp add: close_listener_nonceMap map_of_eq_None_iff image_image)

lemma funpow_close_listener_absent:
  "map_of (nonceMap c) n = None \<Longrightarrow> map_of (nonceMap ((close_listener r ^^ k) c)) n = None"
  by (induction k) (simp_all add: close_listener_absent)

lemma step_absent:
  assumes "map_of (nonceMap c) n = None" "\<not> reuses n ev"
  shows "map_of (nonceMap (step ev c)) n = None"
proof (cases ev)
  case (CallRequest a b e u)
  with assms show ?thesis by (simp add: reuses_def request_fields update_conv')
next
  case (Message m)
  with assms show ?thesis
    by (simp add: on_message_nonceMap delete_conv' split: option.split)
next
  case (Close r)
  with assms funpow_close_listener_absent [where c = "c\<lparr>closeOnce := 0\<rparr>" and n = n and r = r and k = "closeOnce c"]
  show ?thesis by (simp add: transport_close_def)
qed (use assms quiet_step(1) [of ev c] in \<open>simp_all add: is_close_def\<close>)

lemma run_absent:
  "map_of (nonceMap c) n = None \<Longrightarrow> \<forall>ev\<in>set evs. \<not> reuses n ev \<Longrightarrow>
     map_of (nonceMap (run evs c)) n = None"
  by (induction evs arbitrary: c) (simp_all add: step_absent)

lemma matching_waiting:
  "waiting n e c \<Longrightarrow> nonce m = Some n \<Longrightarrow> matching m c = Some (n, e)"
  by (simp add: waiting_def matching_def)

lemma reply_step:
  assumes "waiting n e c" "nonce m = Some n" "\<not> is_handshake m"
  shows "unref (promise e) (on_message m c)"
    and "map_of (nonceMap (on_message m c)) n = None"
    and "calls_on (RequestPromise (promise e)) (on_message m c) =
           calls_on (RequestPromise (promise e)) c @ [reply_outcome m e]"
proof -
  from assms have mt: "matching m c = Some (n, e)" by (simp add: matching_waiting)
  with assms show "map_of (nonceMap (on_message m c)) n = None"
    by (simp add: on_message_nonceMap delete_conv')
  from mt assms show "calls_on (RequestPromise (promise e)) (on_message m c) =
           calls_on (RequestPromise (promise e)) c @ [reply_outcome m e]"
    by (simp add: on_message_calls)
  from mt assms show "unref (promise e) (on_message m c)"
    by (auto simp add: unref_def waiting_def on_message_nonceMap on_message_nextPromise
          AList.delete_eq)
qed

lemma other_step:
  assumes "waiting n e c" "\<not> is_close ev" "\<not> reuses n ev"
    and "\<And>m. ev = Message m \<Longrightarrow> nonce m \<noteq> Some n \<or> is_handshake m"
  shows "waiting n e (step ev c)"
    and "calls_on (RequestPromise (promise e)) (step ev c) = calls_on (RequestPromise (promise e)) c"
proof -
  have "waiting n e (step ev c) \<and>
    calls_on (RequestPromise (promise e)) (step ev c) = calls_on (RequestPromise (promise e)) c"
  proof (cases ev)
    case (CallRequest a b e' u)
    with assms show ?thesis
      by (auto simp add: waiting_def reuses_def request_fields update_conv' calls_on_def
            dest!: in_set_update)
  next
    case (Message m)
    show ?thesis
    proof (cases "is_handshake m")
      case True
      with Message assms(1) show ?thesis
        by (simp add: waiting_def on_message_nonceMap on_message_calls on_message_nextPromise)
    next
      case False
      with Message assms(4) have nn: "nonce m \<noteq> Some n" by auto
      have other: "\<And>ne. matching m c = Some ne \<Longrightarrow> fst ne \<noteq> n \<and> promise (snd ne) \<noteq> promise e"
        using nn assms(1) matching_in_set [of m c]
        by (auto simp add: matching_def waiting_def split: option.splits if_splits)
      with Message False assms(1) show ?thesis
        by (auto simp add: waiting_def on_message_nonceMap on_message_calls on_message_nextPromise
              dest: in_set_delete split: option.splits)
    qed
  next
    case (Close r)
    with assms show ?thesis by (simp add: is_close_def)
  qed (use assms(1) quiet_step(1) [of ev c] quiet_step(2) [of ev "promise e" c] quiet_step(3) [of ev c]
        in \<open>simp_all add: is_close_def waiting_def\<close>)
  then show "waiting n e (step ev c)"
    and "calls_on (RequestPromise (promise e)) (step ev c) = calls_on (RequestPromise (promise e)) c"
    by simp_all
qed

lemma run_waiting:
  assumes "waiting n e c" "\<forall>ev\<in>set evs. \<not> is_close ev \<and> \<not> reuses n ev"
  shows "calls_on (RequestPromise (promise e)) (run evs c) =
           calls_on (RequestPromise (promise e)) c @
             (case first_reply n evs of None \<Rightarrow> [] | Some m \<Rightarrow> [reply_outcome m e]) \<and>
         (map_of (nonceMap (run evs c)) n = None) = (first_reply n evs \<noteq> None)"
  using assms
proof (induction evs arbitrary: c)
  case Nil
  then show ?case by (simp add: waiting_def)
next
  case (Cons ev evs)
  show ?case
  proof (cases "\<exists>m. ev = Message m \<and> nonce m = Some n \<and> \<not> is_handshake m")
    case True
    then obtain m where m: "ev = Message m" "nonce m = Some n" "\<not> is_handshake m" by auto
    from Cons.prems have nr: "\<forall>ev\<in>set evs. \<not> reuses n ev" by simp
    from reply_step [OF Cons.prems(1) m(2) m(3)] run_unref [of "promise e" "on_message m c" evs]
      run_absent [OF _ nr, of "on_message m c"] m
    show ?thesis by simp
  next
    case False
    then have nf: "\<And>m. ev = Message m \<Longrightarrow> nonce m \<noteq> Some n \<or> is_handshake m" by auto
    from Cons.prems have q: "\<not> is_close ev" "\<not> reuses n ev" by simp_all
    from Cons.prems have rest: "\<forall>ev\<in>set evs. \<not> is_close ev \<and> \<not> reuses n ev" by simp
    from False have fr: "first_reply n (ev # evs) = first_reply n evs"
      by (auto split: event.splits)
    from other_step [OF Cons.prems(1) q nf] Cons.IH [OF _ rest, of "step ev c"] fr
    show ?thesis by simp
  qed
qed

section \<open>Every event keeps a state well-formed\<close>

lemma callback_ok_mono: "callback_ok n cb \<Longrightarrow> n \<le> m \<Longrightarrow> callback_ok m cb"
  by (cases cb) simp_all

lemma call_ok_mono: "call_ok n tc \<Longrightarrow> n \<le> m \<Longrightarrow> call_ok m tc"
  by (cases tc) simp_all

lemma callback_ok_Suc: "callback_ok n cb \<Longrightarrow> callback_ok (Suc n) cb"
  by (cases cb) simp_all

lemma call_ok_Suc: "call_ok n tc \<Longrightarrow> call_ok (Suc n) tc"
  by (cases tc) simp_all

lemma handle_ok_Suc: "handle_ok n h \<Longrightarrow> handle_ok (Suc n) h"
  by (cases h) simp_all

lemma well_formed_new_client: "well_formed (new_client cid secret)"
  by (simp add: well_formed_def new_client_def)

lemma in_set_fold_delete:
  "x \<in> set (fold (\<lambda>l. AList.delete (fst l)) ls al) \<Longrightarrow> x \<in> set al"
  by (induction ls arbitrary: al) (auto dest: in_set_delete)

lemma well_formed_emit: "well_formed c \<Longrightarrow> well_formed (emit name arg c)"
  by (auto simp add: well_formed_def emit_fields emit_settlements emit_connectedOnce emit_timers serial_def
        dest: in_set_fold_delete)

lemma well_formed_request: "well_formed c \<Longrightarrow> well_formed (snd (request a b e u c))"
  by (auto simp add: well_formed_def request_def Let_def less_Suc_eq
        dest!: in_set_update intro: callback_ok_mono call_ok_mono)

lemma well_formed_identity_fields [simp]:
  "well_formed (c\<lparr>user := u\<rparr>) = well_formed c"
  "well_formed (c\<lparr>cdnHost := h\<rparr>) = well_formed c"
  by (simp_all add: well_formed_def)

lemma well_formed_on_message: "well_formed c \<Longrightarrow> well_formed (on_message m c)"
proof -
  assume w: "well_formed c"
  have b: "well_formed ((settle (RequestPromise (promise (snd ne))) v c)\<lparr>nonceMap := AList.delete (fst ne) (nonceMap c)\<rparr>)"
    if "matching m c = Some ne" for ne v
    using w matching_in_set [OF that]
    by (auto simp add: well_formed_def settle_def serial_def dest: in_set_delete)
  show ?thesis
    using b w by (auto simp add: on_message_def intro!: well_formed_emit split: option.splits)
qed

lemma well_formed_connect: "well_formed c \<Longrightarrow> well_formed (snd (connect c))"
  by (auto simp add: well_formed_def connect_def Let_def less_Suc_eq handle_ok_Suc
        split: option.splits intro: callback_ok_mono call_ok_mono)

lemma well_formed_transport_connect_rejected: "well_formed c \<Longrightarrow> well_formed (transport_connect_rejected p err c)"
  by (auto simp add: well_formed_def transport_connect_rejected_def settle_def serial_def)

lemma fold_settle_more:
  "nextTimer (fold (\<lambda>x. settle (f x) (g x)) xs c) = nextTimer c"
  "transportCalls (fold (\<lambda>x. settle (f x) (g x)) xs c) = transportCalls c"
  "refreshToken (fold (\<lambda>x. settle (f x) (g x)) xs c) = refreshToken c"
  "refreshTimeout (fold (\<lambda>x. settle (f x) (g x)) xs c) = refreshTimeout c"
  "accessToken (fold (\<lambda>x. settle (f x) (g x)) xs c) = accessToken c"
  "tokenType (fold (\<lambda>x. settle (f x) (g x)) xs c) = tokenType c"
  "fetches (fold (\<lambda>x. settle (f x) (g x)) xs c) = fetches c"
  "unhandled (fold (\<lambda>x. settle (f x) (g x)) xs c) = unhandled c"
  by (induction xs arbitrary: c; simp add: settle_def)+

lemma well_formed_close_listener: "well_formed c \<Longrightarrow> well_formed (close_listener r c)"
proof -
  assume w: "well_formed c"
  have "well_formed (fold (\<lambda>ne. settle (RequestPromise (promise (snd ne)))
                      (Rejected (RPCError (close_error r (error (snd ne))))))
          (nonceMap c)
          (c\<lparr>nonceMap :=
               map (\<lambda>ne. (fst ne, (snd ne)\<lparr>error := close_error r (error (snd ne))\<rparr>))
                 (nonceMap c)\<rparr>))"
    using w by (auto simp add: well_formed_def fold_settle_settlements fold_settle_fields fold_settle_more serial_def)
  then show ?thesis by (simp add: close_listener_def well_formed_emit)
qed

lemma well_formed_transport_close: "well_formed c \<Longrightarrow> well_formed (transport_close r c)"
proof -
  assume w: "well_formed c"
  have "well_formed d \<Longrightarrow> well_formed ((close_listener r ^^ k) d)" for k d
    by (induction k) (simp_all add: well_formed_close_listener)
  moreover have "well_formed (c\<lparr>closeOnce := 0\<rparr>)" using w by (simp add: well_formed_def)
  ultimately show ?thesis by (simp add: transport_close_def)
qed

lemma well_formed_refreshAccessToken: "well_formed c \<Longrightarrow> well_formed (refreshAccessToken c)"
proof -
  assume "well_formed c"
  then have "well_formed (emit (Some ''debug'') (Text ''CLIENT | Refreshing access token!'') c)"
    by (rule well_formed_emit)
  then show ?thesis by (simp add: refreshAccessToken_def well_formed_def)
qed

lemma well_formed_fire_timer: "well_formed c \<Longrightarrow> well_formed (fire_timer t c)"
proof (cases "map_of (timers c) t")
  case None
  assume "well_formed c"
  with None show ?thesis by (simp add: fire_timer_def)
next
  case (Some dc)
  assume w: "well_formed c"
  from Some have m: "(t, dc) \<in> set (timers c)" by (rule map_of_SomeD)
  let ?c = "c\<lparr>timers := AList.delete t (timers c)\<rparr>"
  have w': "well_formed ?c" using w by (auto simp add: well_formed_def dest: in_set_delete)
  show ?thesis
  proof (cases "snd dc")
    case (ConnectTimeout k)
    with m w have "k < nextPromise c" by (fastforce simp add: well_formed_def)
    with w' ConnectTimeout Some show ?thesis
      by (auto simp add: fire_timer_def run_callback_def well_formed_def settle_def serial_def)
  next
    case RefreshAccessToken
    with w' Some show ?thesis
      by (simp add: fire_timer_def run_callback_def well_formed_refreshAccessToken)
  qed
qed

lemma well_formed_refresh_response: "well_formed c \<Longrightarrow> well_formed (refresh_response d c)"
  by (auto simp add: well_formed_def refresh_response_def hanleAccessTokenResponse_def less_Suc_eq
        handle_ok_Suc)

lemma well_formed_destroy: "well_formed c \<Longrightarrow> well_formed (snd (destroy c))"
  by (auto simp add: well_formed_def destroy_def Let_def clearTimeout_def less_Suc_eq
        callback_ok_Suc call_ok_Suc split: option.splits dest!: in_set_delete)

lemma well_formed_transport_close_resolved: "well_formed c \<Longrightarrow> well_formed (transport_close_resolved p c)"
  by (auto simp add: well_formed_def transport_close_resolved_def settle_def serial_def)

lemma well_formed_step: "well_formed c \<Longrightarrow> well_formed (step ev c)"
  by (cases ev)
    (simp_all add: well_formed_request well_formed_on_message well_formed_connect well_formed_transport_connect_rejected
       well_formed_transport_close well_formed_fire_timer well_formed_refresh_response well_formed_destroy
       well_formed_transport_close_resolved)

lemma well_formed_run: "well_formed c \<Longrightarrow> well_formed (run evs c)"
  by (induction evs arbitrary: c) (simp_all add: well_formed_step)

section \<open>Promise states and fresh requests\<close>

lemma promise_state_calls:
  "promise_state c p = (case calls_on p c of [] \<Rightarrow> Pending | v # vs \<Rightarrow> Settled v)"
proof -
  have "map_of xs p = (case map snd (filter (\<lambda>x. fst x = p) xs) of [] \<Rightarrow> None | v # vs \<Rightarrow> Some v)"
    for xs :: "(promise_ref \<times> settled) list"
    by (induction xs) auto
  then show ?thesis
    by (simp add: promise_state_def calls_on_def split: list.split)
qed

lemma reply_outcome_explicit:
  "reply_outcome m e =
     (if evt m = Some ''ERROR''
      then Rejected (RPCError \<lparr>code = WireCode (data_code (data m)), message = data_message (data m)\<rparr>)
      else Resolved (Reply m))"
  by (cases e) (simp add: reply_outcome_def)

lemma fresh_request_waiting:
  assumes "well_formed c" "uuid \<noteq> []"
  shows "waiting uuid \<lparr>promise = nextPromise c, error = \<lparr>code = RPC_UNKNOWN_ERROR, message = None\<rparr>\<rparr>
           (snd (request a b e uuid c))"
    and "calls_on (RequestPromise (nextPromise c)) (snd (request a b e uuid c)) = []"
proof -
  from assms(1) have old: "\<forall>ne\<in>set (nonceMap c). promise (snd ne) < nextPromise c"
    and st: "\<forall>x\<in>set (settlements c). serial (fst x) < nextPromise c"
    by (simp_all add: well_formed_def)
  from old assms(2) show "waiting uuid \<lparr>promise = nextPromise c, error = \<lparr>code = RPC_UNKNOWN_ERROR, message = None\<rparr>\<rparr>
           (snd (request a b e uuid c))"
    by (auto simp add: waiting_def request_fields update_conv' dest!: in_set_update)
  from st show "calls_on (RequestPromise (nextPromise c)) (snd (request a b e uuid c)) = []"
    by (fastforce simp add: calls_on_def request_fields filter_empty_conv serial_def)
qed

section \<open>The probing loop\<close>

declare probe_from.simps [simp del]

declare decimal.simps [simp del]

lemma ports_decimal:
  "map (\<lambda>i. decimal (6463 + i)) [0..<10] =
     [''6463'', ''6464'', ''6465'', ''6466'', ''6467'', ''6468'', ''6469'', ''6470'', ''6471'', ''6472'']"
  by (simp add: upt_conv_Cons digit_def
        decimal.simps [of 6463] decimal.simps [of 6464] decimal.simps [of 6465]
        decimal.simps [of 6466] decimal.simps [of 6467] decimal.simps [of 6468]
        decimal.simps [of 6469] decimal.simps [of 6470] decimal.simps [of 6471]
        decimal.simps [of 6472] decimal.simps [of 647] decimal.simps [of 646]
        decimal.simps [of 64] decimal.simps [of 6])

lemma urls_explicit:
  "map (url cid) [0..<10] =
     map (\<lambda>port. ''ws://127.0.0.1:'' @ port @ ''/?v=1&client_id='' @ cid)
       [''6463'', ''6464'', ''6465'', ''6466'', ''6467'', ''6468'', ''6469'', ''6470'', ''6471'', ''6472'']"
proof -
  have "map (url cid) [0..<10] =
          map (\<lambda>port. ''ws://127.0.0.1:'' @ port @ ''/?v=1&client_id='' @ cid)
            (map (\<lambda>i. decimal (6463 + i)) [0..<10])"
    unfolding map_map by (rule map_cong) (simp_all add: url_def)
  then show ?thesis by (simp only: ports_decimal)
qed

lemma probe_from_errored:
  assumes "\<forall>j<10. i \<le> j \<longrightarrow> env (url cid j) = Errored"
  shows "probe_from env cid i = (map (url cid) [i..<10], Exhausted)"
  using assms
proof (induction env cid i rule: probe_from.induct)
  case (1 env cid i)
  show ?case
  proof (cases "i < 10")
    case True
    with "1.prems" have e: "env (url cid i) = Errored" by simp
    from "1.prems" have "\<forall>j<10. Suc i \<le> j \<longrightarrow> env (url cid j) = Errored" by simp
    from "1.IH" [OF True e this] True e show ?thesis
      by (subst probe_from.simps) (simp add: upt_conv_Cons)
  next
    case False
    then show ?thesis by (subst probe_from.simps) simp
  qed
qed

lemma probe_from_opened:
  assumes "i \<le> k" "k < 10" "env (url cid k) = Opened"
    and "\<forall>j<k. i \<le> j \<longrightarrow> env (url cid j) = Errored"
  shows "probe_from env cid i = (map (url cid) [i..<Suc k], Found (Socket (url cid k)))"
  using assms
proof (induction env cid i rule: probe_from.induct)
  case (1 env cid i)
  show ?case
  proof (cases "i = k")
    case True
    with "1.prems" show ?thesis by (subst probe_from.simps) simp
  next
    case False
    with "1.prems" have lt: "i < k" "i < 10" by simp_all
    with "1.prems" have e: "env (url cid i) = Errored" by simp
    from "1.prems" lt have "\<forall>j<k. Suc i \<le> j \<longrightarrow> env (url cid j) = Errored" by simp
    from "1.IH" [OF lt(2) e _ "1.prems"(2,3) this] lt e show ?thesis
      by (subst probe_from.simps) (simp add: upt_conv_Cons)
  qed
qed

lemma connect_with_stale_socket:
  assumes "\<forall>j<10. env (url cid j) = Errored" and "ws t = Some s"
  shows "outcome (WebsocketTransport_connect env cid t) = None \<and>
         thrown (WebsocketTransport_connect env cid t) = None"
proof -
  from assms(1) have "probe_from env cid 0 = (map (url cid) [0..<10], Exhausted)"
    by (intro probe_from_errored) simp
  with assms(2) show ?thesis by (simp add: WebsocketTransport_connect_def)
qed

section \<open>Timers, tokens and the close listener\<close>

lemma map_of_append_fresh:
  "\<forall>x\<in>set xs. fst x \<noteq> k \<Longrightarrow> map_of (xs @ [(k, v)]) k = Some v"
  by (induction xs) auto

lemma fresh_timer:
  "well_formed c \<Longrightarrow> \<forall>x\<in>set (timers c). fst x \<noteq> nextTimer c"
  by (auto simp add: well_formed_def)

lemma close_error_explicit: "close_error r e = connection_ended r"
  by (cases e; cases r) (simp_all add: close_error_def connection_ended_def)

lemma transport_close_once:
  "closeOnce c = Suc 0 \<Longrightarrow> transport_close r c = close_listener r (c\<lparr>closeOnce := 0\<rparr>)"
  by (simp add: transport_close_def)

lemma map_of_constant_value:
  "x \<in> set xs \<Longrightarrow> map_of (map (\<lambda>x. (f x, v)) xs) (f x) = Some v"
  by (induction xs) auto

lemma connected_two_pending_eval:
  "closeOnce connected_two_pending = Suc 0"
  "nonceMap connected_two_pending =
     [(''n1'', \<lparr>promise = 1, error = \<lparr>code = RPC_UNKNOWN_ERROR, message = None\<rparr>\<rparr>),
      (''n2'', \<lparr>promise = 2, error = \<lparr>code = RPC_UNKNOWN_ERROR, message = None\<rparr>\<rparr>)]"
  "settlements connected_two_pending = [(ConnectPromise 0, Resolved Void)]"
  "emitted connected_two_pending = [(Some ''connected'', NoArg)]"
  by (simp_all add: connected_two_pending_def new_client_def connect_def Let_def on_message_def
        ready_dispatch_def is_handshake_def emit_def connected_listener_def settle_def
        clearTimeout_def request_def truthy_cdn_host_def)

lemma map_of_fold_delete_None:
  "map_of al t = None \<Longrightarrow> map_of (fold (\<lambda>l. AList.delete (fst l)) ls al) t = None"
  by (induction ls arbitrary: al) (simp_all add: delete_conv')

lemma map_of_append_other:
  "k \<noteq> t \<Longrightarrow> map_of (xs @ [(k, v)]) t = map_of xs t"
  by (induction xs) auto






lemma fresh_promise_pending:
  "well_formed c \<Longrightarrow> serial p = nextPromise c \<Longrightarrow> map_of (settlements c) p = None"
  by (fastforce simp add: well_formed_def map_of_eq_None_iff)



section \<open>A connection attempt along a run\<close>

lemma fold_settle_eq:
  "fold (\<lambda>x. settle (f x) (g x)) xs c = c\<lparr>settlements := settlements c @ map (\<lambda>x. (f x, g x)) xs\<rparr>"
  by (induction xs arbitrary: c) (simp_all add: settle_def)

lemma emit_other_eq:
  "name \<noteq> Some ''connected'' \<Longrightarrow> emit name arg c = c\<lparr>emitted := emitted c @ [(name, arg)]\<rparr>"
  by (simp add: emit_def)

lemma close_listener_eq:
  "close_listener r c =
     c\<lparr>nonceMap := map (\<lambda>ne. (fst ne, (snd ne)\<lparr>error := close_error r (error (snd ne))\<rparr>)) (nonceMap c),
       settlements := settlements c @
         map (\<lambda>ne. (RequestPromise (promise (snd ne)),
                     Rejected (RPCError (close_error r (error (snd ne)))))) (nonceMap c),
       emitted := emitted c @ [(Some ''disconnected'', NoArg)]\<rparr>"
  by (simp add: close_listener_def emit_other_eq fold_settle_eq)

lemma funpow_close_listener_eq:
  "\<exists>N S E. requests_only S \<and>
     (close_listener r ^^ n) c =
       c\<lparr>nonceMap := N, settlements := settlements c @ S, emitted := E\<rparr>"
proof (induction n)
  case 0
  have "c = c\<lparr>nonceMap := nonceMap c, settlements := settlements c @ [], emitted := emitted c\<rparr>"
    by simp
  moreover have "requests_only []" by (simp add: requests_only_def)
  ultimately show ?case by (metis funpow_0)
next
  case (Suc n)
  then obtain N S E where s: "requests_only S"
    and e: "(close_listener r ^^ n) c = c\<lparr>nonceMap := N, settlements := settlements c @ S, emitted := E\<rparr>"
    by blast
  let ?S = "S @ map (\<lambda>ne. (RequestPromise (promise (snd ne)),
                     Rejected (RPCError (close_error r (error (snd ne)))))) N"
  have "requests_only ?S" using s by (auto simp add: requests_only_def)
  moreover have "(close_listener r ^^ Suc n) c =
      c\<lparr>nonceMap := map (\<lambda>ne. (fst ne, (snd ne)\<lparr>error := close_error r (error (snd ne))\<rparr>)) N,
        settlements := settlements c @ ?S,
        emitted := E @ [(Some ''disconnected'', NoArg)]\<rparr>"
    by (simp add: e close_listener_eq)
  ultimately show ?case by blast
qed

lemma transport_close_eq:
  "\<exists>N S E. requests_only S \<and>
     transport_close r c =
       c\<lparr>closeOnce := 0, nonceMap := N, settlements := settlements c @ S, emitted := E\<rparr>"
proof -
  from funpow_close_listener_eq [where r = r and n = "closeOnce c" and c = "c\<lparr>closeOnce := 0\<rparr>"]
  obtain N S E where "requests_only S"
    and "(close_listener r ^^ closeOnce c) (c\<lparr>closeOnce := 0\<rparr>) =
       c\<lparr>closeOnce := 0, nonceMap := N, settlements := settlements c @ S, emitted := E\<rparr>"
    by auto
  then show ?thesis by (auto simp add: transport_close_def)
qed

lemma calls_on_connect_requests_only:
  "requests_only S \<Longrightarrow> filter (\<lambda>x. fst x = ConnectPromise k) S = []"
  by (auto simp add: requests_only_def filter_empty_conv)

lemma step_in_flight:
  assumes "in_flight k t c" "calm ev c"
  shows "in_flight k t (step ev c)"
proof (cases ev)
  case (CallRequest a b e u)
  with assms show ?thesis by (simp add: in_flight_def request_def Let_def)
next
  case (Message m)
  with assms have ne: "evt m \<noteq> Some ''connected''" "\<not> is_handshake m"
    by (simp_all add: calm_def emits_connected_def)
  with Message assms(1) show ?thesis
    by (simp add: in_flight_def on_message_def emit_other_eq settle_def split: option.split prod.split)
next
  case CallConnect
  with assms show ?thesis by (simp add: in_flight_def connect_def)
next
  case (ConnectRejected p err)
  with assms show ?thesis by (simp add: in_flight_def transport_connect_rejected_def settle_def)
next
  case (Close r)
  from transport_close_eq [where r = r and c = c] obtain N S E where
    "transport_close r c = c\<lparr>closeOnce := 0, nonceMap := N, settlements := settlements c @ S, emitted := E\<rparr>"
    by blast
  with Close assms show ?thesis by (simp add: in_flight_def)
next
  case (TimerFires t')
  show ?thesis
  proof (cases "map_of (timers c) t'")
    case None
    with TimerFires assms show ?thesis by (simp add: fire_timer_def)
  next
    case (Some dc)
    with TimerFires assms(2) have r: "snd dc = RefreshAccessToken"
      by (simp add: calm_def fires_connect_timeout_def split: timer_callback.splits)
    with Some assms(1) have "t' \<noteq> t" by (auto simp add: in_flight_def)
    with TimerFires Some r assms(1) show ?thesis
      by (simp add: in_flight_def fire_timer_def run_callback_def refreshAccessToken_def
            emit_other_eq delete_conv')
  qed
next
  case (RefreshResponse d)
  with assms show ?thesis
    by (auto simp add: in_flight_def refresh_response_def hanleAccessTokenResponse_def
          map_of_append_other)
next
  case CallDestroy
  with assms show ?thesis
    by (auto simp add: in_flight_def destroy_def Let_def clearTimeout_def delete_conv'
          split: option.split)
next
  case (CloseResolved p)
  with assms show ?thesis by (simp add: in_flight_def transport_close_resolved_def settle_def)
qed

lemma run_in_flight:
  "in_flight k t c \<Longrightarrow> calm_run evs c \<Longrightarrow> in_flight k t (run evs c)"
  by (induction evs arbitrary: c) (simp_all add: step_in_flight)

lemma step_calls_connect:
  assumes "calm ev c" "\<not> rejects k ev"
  shows "calls_on (ConnectPromise k) (step ev c) = calls_on (ConnectPromise k) c"
proof (cases ev)
  case (CallRequest a b e u)
  then show ?thesis by (simp add: calls_on_def request_def Let_def)
next
  case (Message m)
  with assms have ne: "evt m \<noteq> Some ''connected''" "\<not> is_handshake m"
    by (simp_all add: calm_def emits_connected_def)
  with Message show ?thesis
    by (simp add: calls_on_def on_message_def emit_other_eq settle_def split: option.split prod.split)
next
  case CallConnect
  then show ?thesis by (simp add: calls_on_def connect_def Let_def split: option.split)
next
  case (ConnectRejected p err)
  with assms show ?thesis
    by (simp add: calls_on_def rejects_def transport_connect_rejected_def settle_def)
next
  case (Close r)
  from transport_close_eq [where r = r and c = c] obtain N S E where "requests_only S" and
    "transport_close r c = c\<lparr>closeOnce := 0, nonceMap := N, settlements := settlements c @ S, emitted := E\<rparr>"
    by blast
  with Close show ?thesis by (simp add: calls_on_def calls_on_connect_requests_only)
next
  case (TimerFires t')
  show ?thesis
  proof (cases "map_of (timers c) t'")
    case None
    with TimerFires show ?thesis by (simp add: fire_timer_def)
  next
    case (Some dc)
    with TimerFires assms(1) have r: "snd dc = RefreshAccessToken"
      by (simp add: calm_def fires_connect_timeout_def split: timer_callback.splits)
    with TimerFires Some show ?thesis
      by (simp add: calls_on_def fire_timer_def run_callback_def refreshAccessToken_def emit_other_eq)
  qed
next
  case (RefreshResponse d)
  then show ?thesis
    by (simp add: calls_on_def refresh_response_def hanleAccessTokenResponse_def)
next
  case CallDestroy
  then show ?thesis
    by (simp add: calls_on_def destroy_def Let_def clearTimeout_def split: option.split)
next
  case (CloseResolved p)
  then show ?thesis by (simp add: calls_on_def transport_close_resolved_def settle_def)
qed

lemma run_calls_connect:
  "calm_run evs c \<Longrightarrow> \<forall>ev\<in>set evs. \<not> rejects k ev \<Longrightarrow>
     calls_on (ConnectPromise k) (run evs c) = calls_on (ConnectPromise k) c"
  by (induction evs arbitrary: c) (simp_all add: step_calls_connect)

lemma step_settlements_grow: "\<exists>xs. settlements (step ev c) = settlements c @ xs"
proof (cases ev)
  case (Message m)
  then show ?thesis by (simp add: on_message_settlements)
next
  case (Close r)
  from transport_close_eq [where r = r and c = c] obtain N S E where
    "transport_close r c = c\<lparr>closeOnce := 0, nonceMap := N, settlements := settlements c @ S, emitted := E\<rparr>"
    by blast
  with Close show ?thesis by simp
next
  case (TimerFires t')
  then show ?thesis
    by (simp add: fire_timer_def run_callback_def refreshAccessToken_def emit_settlements settle_def
          split: option.split timer_callback.split)
qed (simp_all add: request_def connect_def transport_connect_rejected_def refresh_response_def
       hanleAccessTokenResponse_def destroy_def transport_close_resolved_def settle_def Let_def
       clearTimeout_def split: option.split)

lemma step_settled_stays:
  "promise_state c p = Settled v \<Longrightarrow> promise_state (step ev c) p = Settled v"
proof -
  assume a: "promise_state c p = Settled v"
  from step_settlements_grow [of ev c] obtain xs where
    "settlements (step ev c) = settlements c @ xs" by blast
  with a show ?thesis
    by (auto simp add: promise_state_def map_add_def split: option.splits)
qed

lemma run_settled_stays:
  "promise_state c p = Settled v \<Longrightarrow> promise_state (run evs c) p = Settled v"
  by (induction evs arbitrary: c) (simp_all add: step_settled_stays)

lemma step_connect_calls:
  assumes "connectionPromise c \<noteq> None"
  shows "filter is_connect_call (transportCalls (step ev c)) = filter is_connect_call (transportCalls c)"
proof (cases ev)
  case (Message m)
  then show ?thesis
    by (simp add: on_message_def emit_fields settle_def split: option.split prod.split)
next
  case (Close r)
  from transport_close_eq [where r = r and c = c] obtain N S E where
    "transport_close r c = c\<lparr>closeOnce := 0, nonceMap := N, settlements := settlements c @ S, emitted := E\<rparr>"
    by blast
  with Close show ?thesis by simp
next
  case (TimerFires t')
  then show ?thesis
    by (simp add: fire_timer_def run_callback_def refreshAccessToken_def emit_fields settle_def
          split: option.split timer_callback.split)
next
  case CallConnect
  with assms show ?thesis by (auto simp add: connect_def)
qed (simp_all add: request_def transport_connect_rejected_def refresh_response_def
       hanleAccessTokenResponse_def destroy_def transport_close_resolved_def settle_def Let_def
       clearTimeout_def is_connect_call_def split: option.split)

lemma run_connect_calls:
  "in_flight k t c \<Longrightarrow> calm_run evs c \<Longrightarrow>
     filter is_connect_call (transportCalls (run evs c)) = filter is_connect_call (transportCalls c)"
proof (induction evs arbitrary: c)
  case Nil
  then show ?case by simp
next
  case (Cons ev evs)
  from Cons.prems have "connectionPromise c \<noteq> None" by (simp add: in_flight_def)
  from step_connect_calls [OF this, of ev] Cons.IH [of "step ev c"] Cons.prems
  show ?case by (simp add: step_in_flight)
qed

lemma in_flight_settle [simp]: "in_flight k t (settle p v c) = in_flight k t c"
  by (simp add: in_flight_def settle_def)

lemma promise_state_settle_pending:
  "promise_state c p = Pending \<Longrightarrow> promise_state (settle p v c) p = Settled v"
  by (simp add: promise_state_def settle_def map_add_def split: option.splits)

lemma promise_state_settle_settled:
  "promise_state c p = Settled w \<Longrightarrow> promise_state (settle q v c) p = Settled w"
  by (auto simp add: promise_state_def settle_def map_add_def split: option.splits)

lemma promise_state_connectionPromise [simp]:
  "promise_state (c\<lparr>connectionPromise := x\<rparr>) p = promise_state c p"
  "promise_state (c\<lparr>timers := y\<rparr>) p = promise_state c p"
  by (simp_all add: promise_state_def)

lemma fire_in_flight:
  assumes "in_flight k t c"
  shows "fire_timer t c =
     settle (ConnectPromise k)
       (Rejected (RPCError \<lparr>code = RPC_CONNECTION_TIMEOUT, message = Some ''Connection timed out''\<rparr>))
       (c\<lparr>timers := AList.delete t (timers c), connectionPromise := None\<rparr>)"
  using assms by (simp add: in_flight_def fire_timer_def run_callback_def)

lemma fresh_connect_in_flight:
  assumes "well_formed c" "connectionPromise c = None"
  shows "in_flight (nextPromise c) (nextTimer c) (snd (connect c))"
    and "promise_state (snd (connect c)) (ConnectPromise (nextPromise c)) = Pending"
    and "calls_on (ConnectPromise (nextPromise c)) (snd (connect c)) = []"
proof -
  from assms(1) have h: "refreshTimeout c \<noteq> Some (nextTimer c)"
    by (cases "refreshTimeout c") (auto simp add: well_formed_def)
  from assms(2) h map_of_append_fresh [OF fresh_timer [OF assms(1)]]
  show "in_flight (nextPromise c) (nextTimer c) (snd (connect c))"
    by (simp add: in_flight_def connect_def Let_def)
  have fresh: "map_of (settlements c) (ConnectPromise (nextPromise c)) = None"
    by (rule fresh_promise_pending [OF assms(1)]) (simp add: serial_def)
  with assms(2) show "promise_state (snd (connect c)) (ConnectPromise (nextPromise c)) = Pending"
    by (simp add: promise_state_def connect_def Let_def)
  then show "calls_on (ConnectPromise (nextPromise c)) (snd (connect c)) = []"
    by (simp add: promise_state_calls split: list.splits)
qed

lemma map_of_fold_delete_mem:
  "l \<in> set ls \<Longrightarrow> map_of (fold (\<lambda>l. AList.delete (fst l)) ls al) (fst l) = None"
proof (induction ls arbitrary: al)
  case Nil
  then show ?case by simp
next
  case (Cons x ls)
  show ?case
  proof (cases "x = l")
    case True
    then show ?thesis by (simp add: map_of_fold_delete_None delete_conv')
  next
    case False
    with Cons show ?thesis by simp
  qed
qed

lemma handshake_eq:
  "is_handshake m \<Longrightarrow> \<exists>u h. on_message m c = emit (Some ''connected'') NoArg (c\<lparr>user := u, cdnHost := h\<rparr>)"
  by (auto simp add: on_message_def)

lemma new_client_counters:
  "nextPromise (new_client cid s) = 0" "nextTimer (new_client cid s) = 0"
  "connectionPromise (new_client cid s) = None"
  by (simp_all add: new_client_def)

lemma failed_attempt_in_flight:
  "in_flight 0 0 (snd (connect (new_client ''1'' None)))"
  "promise_state (snd (connect (new_client ''1'' None))) (ConnectPromise 0) = Pending"
  using fresh_connect_in_flight [OF well_formed_new_client, of "''1''" None]
  by (simp_all add: new_client_counters)

lemma promise_state_settle:
  "promise_state (settle p v c) p =
     (case promise_state c p of Pending \<Rightarrow> Settled v | Settled w \<Rightarrow> Settled w)"
  by (simp add: promise_state_def settle_def map_add_def split: option.splits)

section \<open>The probing loop on a transport without a socket\<close>

lemma probing_outcomes:
  "map (url cid) [0..<10] =
     map (\<lambda>port. ''ws://127.0.0.1:'' @ port @ ''/?v=1&client_id='' @ cid)
       [''6463'', ''6464'', ''6465'', ''6466'', ''6467'', ''6468'', ''6469'', ''6470'', ''6471'', ''6472''] \<and>
   (k < 10 \<and> env (url cid k) = Opened \<and> (\<forall>j<k. env (url cid j) = Errored) \<longrightarrow>
      probed (WebsocketTransport_connect env cid t) = map (url cid) [0..<Suc k] \<and>
      outcome (WebsocketTransport_connect env cid t) = Some (Resolved Void) \<and>
      ws (after (WebsocketTransport_connect env cid t)) = Some (Socket (url cid k))) \<and>
   ((\<forall>j<10. env (url cid j) = Errored) \<and> ws t = None \<longrightarrow>
      probed (WebsocketTransport_connect env cid t) = map (url cid) [0..<10] \<and>
      outcome (WebsocketTransport_connect env cid t) =
        Some (Rejected (Error ''Failed to connect to websocket'')))"
proof (intro conjI impI)
  show "map (url cid) [0..<10] =
     map (\<lambda>port. ''ws://127.0.0.1:'' @ port @ ''/?v=1&client_id='' @ cid)
       [''6463'', ''6464'', ''6465'', ''6466'', ''6467'', ''6468'', ''6469'', ''6470'', ''6471'', ''6472'']"
    by (rule urls_explicit)
next
  assume a: "k < 10 \<and> env (url cid k) = Opened \<and> (\<forall>j<k. env (url cid j) = Errored)"
  then have p: "probe_from env cid 0 = (map (url cid) [0..<Suc k], Found (Socket (url cid k)))"
    by (intro probe_from_opened) simp_all
  show "probed (WebsocketTransport_connect env cid t) = map (url cid) [0..<Suc k]"
    and "outcome (WebsocketTransport_connect env cid t) = Some (Resolved Void)"
    and "ws (after (WebsocketTransport_connect env cid t)) = Some (Socket (url cid k))"
    by (simp_all add: WebsocketTransport_connect_def p)
next
  assume a: "(\<forall>j<10. env (url cid j) = Errored) \<and> ws t = None"
  then have p: "probe_from env cid 0 = (map (url cid) [0..<10], Exhausted)"
    by (intro probe_from_errored) simp
  from a show "probed (WebsocketTransport_connect env cid t) = map (url cid) [0..<10]"
    and "outcome (WebsocketTransport_connect env cid t) =
        Some (Rejected (Error ''Failed to connect to websocket''))"
    by (simp_all add: WebsocketTransport_connect_def p)
qed

lemma probing_outcomes_example:
  "probed (WebsocketTransport_connect only_6472 ''42'' \<lparr>ws = None, wired = []\<rparr>) =
     [''ws://127.0.0.1:6463/?v=1&client_id=42'', ''ws://127.0.0.1:6464/?v=1&client_id=42'',
      ''ws://127.0.0.1:6465/?v=1&client_id=42'', ''ws://127.0.0.1:6466/?v=1&client_id=42'',
      ''ws://127.0.0.1:6467/?v=1&client_id=42'', ''ws://127.0.0.1:6468/?v=1&client_id=42'',
      ''ws://127.0.0.1:6469/?v=1&client_id=42'', ''ws://127.0.0.1:6470/?v=1&client_id=42'',
      ''ws://127.0.0.1:6471/?v=1&client_id=42'', ''ws://127.0.0.1:6472/?v=1&client_id=42''] \<and>
   outcome (WebsocketTransport_connect only_6472 ''42'' \<lparr>ws = None, wired = []\<rparr>) =
     Some (Resolved Void) \<and>
   ws (after (WebsocketTransport_connect only_6472 ''42'' \<lparr>ws = None, wired = []\<rparr>)) =
     Some (Socket ''ws://127.0.0.1:6472/?v=1&client_id=42'') \<and>
   outcome (WebsocketTransport_connect (\<lambda>u. Errored) ''42'' \<lparr>ws = None, wired = []\<rparr>) =
     Some (Rejected (Error ''Failed to connect to websocket''))"
proof -
  let ?L = "[''ws://127.0.0.1:6463/?v=1&client_id=42'', ''ws://127.0.0.1:6464/?v=1&client_id=42'',
      ''ws://127.0.0.1:6465/?v=1&client_id=42'', ''ws://127.0.0.1:6466/?v=1&client_id=42'',
      ''ws://127.0.0.1:6467/?v=1&client_id=42'', ''ws://127.0.0.1:6468/?v=1&client_id=42'',
      ''ws://127.0.0.1:6469/?v=1&client_id=42'', ''ws://127.0.0.1:6470/?v=1&client_id=42'',
      ''ws://127.0.0.1:6471/?v=1&client_id=42'', ''ws://127.0.0.1:6472/?v=1&client_id=42'']"
  note th = probing_outcomes [of "''42''" 9 only_6472 "\<lparr>ws = None, wired = []\<rparr>"]
  from th have u: "map (url ''42'') [0..<10] = ?L" by simp
  have nth: "url ''42'' j = ?L ! j" if "j < 10" for j
  proof -
    from that have "map (url ''42'') [0..<10] ! j = url ''42'' j" by simp
    with u show ?thesis by simp
  qed
  have cases9: "j = 0 \<or> j = 1 \<or> j = 2 \<or> j = 3 \<or> j = 4 \<or> j = 5 \<or> j = 6 \<or> j = 7 \<or> j = 8"
    if "j < 9" for j :: nat
    using that by arith
  have closed_before: "\<forall>j<9. only_6472 (url ''42'' j) = Errored"
  proof (intro allI impI)
    fix j :: nat assume "j < 9"
    from cases9 [OF this] nth [of 0] nth [of 1] nth [of 2] nth [of 3] nth [of 4] nth [of 5]
      nth [of 6] nth [of 7] nth [of 8]
    show "only_6472 (url ''42'' j) = Errored"
      by (auto simp add: only_6472_def)
  qed
  have open9: "only_6472 (url ''42'' 9) = Opened"
    using nth [of 9] by (simp add: only_6472_def)
  from th closed_before open9 u nth [of 9]
  have first: "probed (WebsocketTransport_connect only_6472 ''42'' \<lparr>ws = None, wired = []\<rparr>) = ?L \<and>
      outcome (WebsocketTransport_connect only_6472 ''42'' \<lparr>ws = None, wired = []\<rparr>) = Some (Resolved Void) \<and>
      ws (after (WebsocketTransport_connect only_6472 ''42'' \<lparr>ws = None, wired = []\<rparr>)) =
        Some (Socket ''ws://127.0.0.1:6472/?v=1&client_id=42'')"
    by simp
  from probing_outcomes [of "''42''" 0 "\<lambda>u. Errored" "\<lparr>ws = None, wired = []\<rparr>"]
  have second: "outcome (WebsocketTransport_connect (\<lambda>u. Errored) ''42'' \<lparr>ws = None, wired = []\<rparr>) =
     Some (Rejected (Error ''Failed to connect to websocket''))"
    by simp
  from first second show ?thesis by simp
qed

section \<open>Runs between destroy and its completion\<close>









section \<open>The claims\<close>

subsection \<open>C1: the transport closes while requests are pending\<close>

text \<open>
  Claim C1 as stated has the rejection carry the generic message \<open>Connection ended\<close>
  whenever the reason is not structured, and the table empty afterwards. With a text
  reason the message is the text, and the close listener removes no entry: both tokens
  are still in the table.
\<close>

theorem close_keeps_table_counterexample:
  "calls_on (RequestPromise 1) (transport_close (TextReason ''bye'') connected_two_pending) =
     [Rejected (RPCError \<lparr>code = RPC_CONNECTION_ENDED, message = Some ''bye''\<rparr>)] \<and>
   map fst (nonceMap (transport_close (TextReason ''bye'') connected_two_pending)) = [''n1'', ''n2'']"
  by (simp add: transport_close_once connected_two_pending_eval calls_on_def
        close_listener_settlements close_listener_nonceMap close_error_def)

text \<open>
  Claim C1, as amended. After one completed handshake (one close listener registered),
  when the transport emits \<open>close\<close> with reason \<open>r\<close>, \<open>reject\<close> is called once for
  every entry of the table, in insertion order, with the error \<open>connection_ended r\<close>:
  the code and message of a structured reason; the connection-ended code with the text
  of a text reason; the connection-ended code with \<open>Connection ended\<close> when there is
  no reason. Every request that was pending is rejected with that error, and
  \<open>disconnected\<close> is emitted once. (What becomes of the table is not part of the
  amended claim.)
\<close>

theorem close_rejects_every_pending:
  assumes "closeOnce c = Suc 0"
  shows "settlements (transport_close r c) =
           settlements c @
             map (\<lambda>ne. (RequestPromise (promise (snd ne)),
                         Rejected (RPCError (connection_ended r)))) (nonceMap c) \<and>
         emitted (transport_close r c) = emitted c @ [(Some ''disconnected'', NoArg)] \<and>
         (\<forall>ne\<in>set (nonceMap c).
            promise_state c (RequestPromise (promise (snd ne))) = Pending \<longrightarrow>
            promise_state (transport_close r c) (RequestPromise (promise (snd ne))) =
              Settled (Rejected (RPCError (connection_ended r))))"
proof -
  have s: "settlements (transport_close r c) =
           settlements c @
             map (\<lambda>ne. (RequestPromise (promise (snd ne)),
                         Rejected (RPCError (connection_ended r)))) (nonceMap c)"
    by (simp add: transport_close_once [OF assms] close_listener_settlements close_error_explicit)
  have e: "emitted (transport_close r c) = emitted c @ [(Some ''disconnected'', NoArg)]"
    by (simp add: transport_close_once [OF assms] close_listener_fields)
  have p: "promise_state (transport_close r c) (RequestPromise (promise (snd ne))) =
              Settled (Rejected (RPCError (connection_ended r)))"
    if "ne \<in> set (nonceMap c)" "promise_state c (RequestPromise (promise (snd ne))) = Pending" for ne
  proof -
    from that(2) have n: "map_of (settlements c) (RequestPromise (promise (snd ne))) = None"
      by (simp add: promise_state_def split: option.splits)
    from map_of_constant_value [OF that(1),
        of "\<lambda>ne. RequestPromise (promise (snd ne))" "Rejected (RPCError (connection_ended r))"]
    show ?thesis
      by (simp add: promise_state_def s map_add_def n)
  qed
  from s e p show ?thesis by blast
qed

text \<open>
  After \<open>connect\<close>, the handshake and two requests, a close without a reason rejects
  both requests and emits \<open>disconnected\<close>.
\<close>

theorem close_rejects_every_pending_witness:
  "closeOnce connected_two_pending = Suc 0 \<and>
   settlements (transport_close NoReason connected_two_pending) =
     [(ConnectPromise 0, Resolved Void),
      (RequestPromise 1, Rejected (RPCError \<lparr>code = RPC_CONNECTION_ENDED,
                                             message = Some ''Connection ended''\<rparr>)),
      (RequestPromise 2, Rejected (RPCError \<lparr>code = RPC_CONNECTION_ENDED,
                                             message = Some ''Connection ended''\<rparr>))] \<and>
   emitted (transport_close NoReason connected_two_pending) =
     [(Some ''connected'', NoArg), (Some ''disconnected'', NoArg)]"
  using close_rejects_every_pending [OF connected_two_pending_eval(1), of NoReason]
  by (simp add: connected_two_pending_eval connection_ended_def)

subsection \<open>C2: replies are matched to requests by token\<close>

text \<open>
  Claim C2 as stated lets every inbound envelope that bears a pending token settle the
  request. A \<open>DISPATCH\<close>/\<open>READY\<close> envelope is taken by the first branch of the handler
  before the token is looked at: the request stays pending and its entry stays.
\<close>

theorem handshake_with_token_counterexample:
  "nonce handshake_with_token = Some ''n1'' \<and>
   map_of (nonceMap one_pending) ''n1'' \<noteq> None \<and>
   promise_state (on_message handshake_with_token one_pending) (RequestPromise 0) = Pending \<and>
   map_of (nonceMap (on_message handshake_with_token one_pending)) ''n1'' \<noteq> None"
  by (simp add: handshake_with_token_def one_pending_def request_def new_client_def Let_def
        on_message_def is_handshake_def emit_def promise_state_def no_data_def truthy_cdn_host_def)

text \<open>
  Claim C2, as amended. Take a client in a well-formed state, a call of \<open>request\<close> whose
  token is non-empty, and any later run of events in which the transport does not emit
  \<open>close\<close> and no later request draws the same token. Then \<open>resolve\<close> or \<open>reject\<close>
  of the request's promise is called at most once: not at all when no inbound envelope
  other than a \<open>DISPATCH\<close>/\<open>READY\<close> handshake bears the token, and otherwise
  exactly once, for the first such envelope, whatever else arrives before or after it.
  The call is \<open>reject\<close> with the remote code and message when the envelope's event is
  \<open>ERROR\<close> and \<open>resolve\<close> with the whole envelope otherwise, and the entry is out of
  the table from then on.
\<close>

theorem request_settled_by_first_reply:
  assumes "well_formed c" and "uuid \<noteq> []" and "\<forall>ev\<in>set evs. \<not> is_close ev \<and> \<not> reuses uuid ev"
  shows "calls_on (fst (request a b e uuid c)) (run evs (snd (request a b e uuid c))) =
           (case first_reply uuid evs of
              None \<Rightarrow> []
            | Some m \<Rightarrow>
                [if evt m = Some ''ERROR''
                 then Rejected (RPCError \<lparr>code = WireCode (data_code (data m)),
                                          message = data_message (data m)\<rparr>)
                 else Resolved (Reply m)]) \<and>
         promise_state (run evs (snd (request a b e uuid c))) (fst (request a b e uuid c)) =
           (case first_reply uuid evs of
              None \<Rightarrow> Pending
            | Some m \<Rightarrow>
                Settled (if evt m = Some ''ERROR''
                         then Rejected (RPCError \<lparr>code = WireCode (data_code (data m)),
                                                  message = data_message (data m)\<rparr>)
                         else Resolved (Reply m))) \<and>
         (map_of (nonceMap (run evs (snd (request a b e uuid c)))) uuid = None) =
           (first_reply uuid evs \<noteq> None)"
proof -
  note w = fresh_request_waiting [OF assms(1,2), of a b e]
  from run_waiting [OF w(1) assms(3)] w(2)
  have calls: "calls_on (fst (request a b e uuid c)) (run evs (snd (request a b e uuid c))) =
           (case first_reply uuid evs of
              None \<Rightarrow> []
            | Some m \<Rightarrow>
                [if evt m = Some ''ERROR''
                 then Rejected (RPCError \<lparr>code = WireCode (data_code (data m)),
                                          message = data_message (data m)\<rparr>)
                 else Resolved (Reply m)])"
    and table: "(map_of (nonceMap (run evs (snd (request a b e uuid c)))) uuid = None) =
           (first_reply uuid evs \<noteq> None)"
    by (simp_all add: request_fields reply_outcome_explicit cong: option.case_cong)
  from calls have "promise_state (run evs (snd (request a b e uuid c))) (fst (request a b e uuid c)) =
           (case first_reply uuid evs of
              None \<Rightarrow> Pending
            | Some m \<Rightarrow>
                Settled (if evt m = Some ''ERROR''
                         then Rejected (RPCError \<lparr>code = WireCode (data_code (data m)),
                                                  message = data_message (data m)\<rparr>)
                         else Resolved (Reply m)))"
    by (simp add: promise_state_calls split: option.splits)
  with calls table show ?thesis by simp
qed

text \<open>
  A run with a second request, replies out of order, a handshake envelope that bears the
  first token and a duplicate reply: the first request is rejected once, by the error reply.
\<close>

theorem request_settled_by_first_reply_witness:
  "well_formed (new_client ''1'' None) \<and> ''n1'' \<noteq> [] \<and>
   calls_on (fst (request ''GET_GUILD'' ''{}'' None ''n1'' (new_client ''1'' None)))
     (run [CallRequest ''GET_GUILDS'' ''{}'' None ''n2'', Message guilds_reply,
           Message handshake_with_token, Message error_reply, Message subscribe_reply]
        (snd (request ''GET_GUILD'' ''{}'' None ''n1'' (new_client ''1'' None)))) =
     [Rejected (RPCError \<lparr>code = WireCode (Some 4000), message = Some ''Invalid guild''\<rparr>)]"
  using request_settled_by_first_reply [of "new_client ''1'' None" "''n1''"
      "[CallRequest ''GET_GUILDS'' ''{}'' None ''n2'', Message guilds_reply,
           Message handshake_with_token, Message error_reply, Message subscribe_reply]"
      "''GET_GUILD''" "''{}''" None]
  by (simp add: well_formed_new_client is_close_def reuses_def guilds_reply_def handshake_with_token_def
        error_reply_def subscribe_reply_def is_handshake_def)

subsection \<open>C3: which envelopes are dispatched by event name\<close>

text \<open>
  Claim C3 as stated: an envelope that matches a pending request is not dispatched to
  the subscribers of its event. The reply to a \<open>SUBSCRIBE\<close> request matches and is
  emitted under its event name all the same.
\<close>

theorem matched_reply_dispatched_counterexample:
  "matching subscribe_reply one_pending \<noteq> None \<and>
   emitted (on_message subscribe_reply one_pending) =
     emitted one_pending @ [(Some ''ACTIVITY_JOIN'', Data no_data)]"
  by (simp add: subscribe_reply_def one_pending_def request_def new_client_def Let_def
        on_message_def is_handshake_def emit_def matching_def settle_def)

text \<open>
  Claim C3, as amended. The handler emits exactly one event per inbound envelope:
  \<open>connected\<close> for a \<open>DISPATCH\<close>/\<open>READY\<close> handshake, and for every other envelope
  the envelope's own event name with its data, whether or not its token matched. A
  matching envelope other than the handshake settles the request it matches and removes
  the entry as well; the handshake settles and removes nothing.
\<close>

theorem dispatch_by_event_name:
  "emitted (on_message m c) =
     emitted c @ [if is_handshake m then (Some ''connected'', NoArg) else (evt m, Data (data m))] \<and>
   nonceMap (on_message m c) =
     (if is_handshake m then nonceMap c
      else case matching m c of
             None \<Rightarrow> nonceMap c
           | Some ne \<Rightarrow> AList.delete (fst ne) (nonceMap c)) \<and>
   calls_on (RequestPromise p) (on_message m c) =
     calls_on (RequestPromise p) c @
       (if is_handshake m then []
        else case matching m c of
               None \<Rightarrow> []
             | Some ne \<Rightarrow> if promise (snd ne) = p then [reply_outcome m (snd ne)] else [])"
proof (intro conjI)
  show "emitted (on_message m c) =
     emitted c @ [if is_handshake m then (Some ''connected'', NoArg) else (evt m, Data (data m))]"
    by (simp add: on_message_def emit_fields settle_def split: option.split prod.split)
qed (rule on_message_nonceMap, rule on_message_calls)

subsection \<open>C4: destroy\<close>




text \<open>
  The exception is needed. A refresh that is already in flight when \<open>destroy\<close> is
  called is not withdrawn: when its response arrives before the transport has closed,
  \<open>destroy\<close> completes with the new refresh token stored and a new refresh timer
  scheduled.
\<close>

lemma refresh_in_flight_outlives_destroy:
  "promise_state (run [TimerFires 0, CallDestroy, RefreshResponse other_tokens, CloseResolved 0]
      authorized_client) (DestroyPromise 0) = Settled (Resolved Void) \<and>
   refreshToken (run [TimerFires 0, CallDestroy, RefreshResponse other_tokens, CloseResolved 0]
      authorized_client) = Some ''R2'' \<and>
   refreshTimeout (run [TimerFires 0, CallDestroy, RefreshResponse other_tokens, CloseResolved 0]
      authorized_client) = Some 1 \<and>
   map_of (timers (run [TimerFires 0, CallDestroy, RefreshResponse other_tokens, CloseResolved 0]
      authorized_client)) 1 = Some (604800, RefreshAccessToken)"
  by (simp add: authorized_client_def refresh_response_def hanleAccessTokenResponse_def
        full_tokens_def other_tokens_def new_client_def destroy_def Let_def clearTimeout_def
        transport_close_resolved_def settle_def promise_state_def fire_timer_def
        run_callback_def refreshAccessToken_def emit_def)

subsection \<open>C5: the socket transport probes ten ports in order\<close>

text \<open>
  Claim C5 fails on the code. The candidates are probed in increasing order and the
  first that opens resolves the attempt (\<open>probing_outcomes\<close>), but whether to reject
  after ten failures is decided by the field \<open>this.ws\<close>, which an earlier successful
  call on the same transport has set and nothing clears. On a transport that has
  connected once, a call in which all ten candidates fail probes all ten in order and
  then neither rejects nor resolves nor throws: the promise of the attempt never
  settles, and the socket of the earlier connection is kept.
\<close>

theorem failed_reconnect_never_settles:
  "ws (connected_transport cid) = Some (Socket (url cid 0)) \<and>
   probed (WebsocketTransport_connect (\<lambda>u. Errored) cid (connected_transport cid)) =
     map (url cid) [0..<10] \<and>
   outcome (WebsocketTransport_connect (\<lambda>u. Errored) cid (connected_transport cid)) = None \<and>
   thrown (WebsocketTransport_connect (\<lambda>u. Errored) cid (connected_transport cid)) = None \<and>
   ws (after (WebsocketTransport_connect (\<lambda>u. Errored) cid (connected_transport cid))) =
     Some (Socket (url cid 0))"
proof -
  have o: "probe_from (\<lambda>u. Opened) cid 0 = (map (url cid) [0..<Suc 0], Found (Socket (url cid 0)))"
    by (intro probe_from_opened) simp_all
  have e: "probe_from (\<lambda>u. Errored) cid 0 = (map (url cid) [0..<10], Exhausted)"
    by (intro probe_from_errored) simp
  from o have w: "ws (connected_transport cid) = Some (Socket (url cid 0))"
    by (simp add: connected_transport_def WebsocketTransport_connect_def)
  with e show ?thesis by (simp add: WebsocketTransport_connect_def)
qed

subsection \<open>C6: token responses\<close>

text \<open>
  Claim C6. In a well-formed state: a response that lacks one of the four fields makes
  \<open>hanleAccessTokenResponse\<close> throw the invalid-response error, and neither the stored
  tokens nor the timers change; a response with all four fields stores the access token,
  the refresh token and the token type and schedules a one-shot timer with delay
  \<open>expires_in\<close>, whose handle is stored, and when that timer fires the client posts a
  \<open>refresh_token\<close> grant carrying the refresh token just stored.
\<close>

theorem token_response_handling:
  assumes "well_formed c"
  shows "(access_token d = None \<or> refresh_token d = None \<or> token_type d = None \<or> expires_in d = None
            \<longrightarrow>
          hanleAccessTokenResponse d c = Inl (InvalidAccessTokenResponse d) \<and>
          accessToken (refresh_response d c) = accessToken c \<and>
          refreshToken (refresh_response d c) = refreshToken c \<and>
          tokenType (refresh_response d c) = tokenType c \<and>
          refreshTimeout (refresh_response d c) = refreshTimeout c \<and>
          timers (refresh_response d c) = timers c) \<and>
         (access_token d = Some a \<and> refresh_token d = Some r \<and> token_type d = Some ty \<and>
          expires_in d = Some ms \<longrightarrow>
          hanleAccessTokenResponse d c = Inr (refresh_response d c) \<and>
          accessToken (refresh_response d c) = Some a \<and>
          refreshToken (refresh_response d c) = Some r \<and>
          tokenType (refresh_response d c) = ty \<and>
          refreshTimeout (refresh_response d c) = Some (nextTimer c) \<and>
          timers (refresh_response d c) = timers c @ [(nextTimer c, ms, RefreshAccessToken)] \<and>
          fetches (fire_timer (nextTimer c) (refresh_response d c)) =
            fetches c @
              [\<lparr>fetch_method = ''POST'', fetch_path = ''/oauth2/token'',
                fetch_form = [(''client_id'', clientId c),
                              (''client_secret'', or_empty (clientSecret c)),
                              (''grant_type'', ''refresh_token''),
                              (''refresh_token'', r)],
                fetch_content_type = ''application/x-www-form-urlencoded'',
                fetch_authorization = (if a = [] then None else Some (ty @ '' '' @ a))\<rparr>])"
proof (intro conjI impI)
  assume "access_token d = None \<or> refresh_token d = None \<or> token_type d = None \<or> expires_in d = None"
  then have e: "hanleAccessTokenResponse d c = Inl (InvalidAccessTokenResponse d)"
    by (auto simp add: hanleAccessTokenResponse_def)
  then show "hanleAccessTokenResponse d c = Inl (InvalidAccessTokenResponse d)" .
  from e show "accessToken (refresh_response d c) = accessToken c"
    and "refreshToken (refresh_response d c) = refreshToken c"
    and "tokenType (refresh_response d c) = tokenType c"
    and "refreshTimeout (refresh_response d c) = refreshTimeout c"
    and "timers (refresh_response d c) = timers c"
    by (simp_all add: refresh_response_def)
next
  assume a: "access_token d = Some a \<and> refresh_token d = Some r \<and> token_type d = Some ty \<and>
          expires_in d = Some ms"
  let ?c = "c\<lparr>accessToken := Some a, refreshToken := Some r, tokenType := ty,
               refreshTimeout := Some (nextTimer c),
               timers := timers c @ [(nextTimer c, ms, RefreshAccessToken)],
               nextTimer := Suc (nextTimer c)\<rparr>"
  from a have h: "hanleAccessTokenResponse d c = Inr ?c"
    by (simp add: hanleAccessTokenResponse_def)
  then have r: "refresh_response d c = ?c" by (simp add: refresh_response_def)
  from h r show "hanleAccessTokenResponse d c = Inr (refresh_response d c)" by simp
  from r show "accessToken (refresh_response d c) = Some a"
    and "refreshToken (refresh_response d c) = Some r"
    and "tokenType (refresh_response d c) = ty"
    and "refreshTimeout (refresh_response d c) = Some (nextTimer c)"
    and "timers (refresh_response d c) = timers c @ [(nextTimer c, ms, RefreshAccessToken)]"
    by simp_all
  have m: "map_of (timers ?c) (nextTimer c) = Some (ms, RefreshAccessToken)"
    using map_of_append_fresh [OF fresh_timer [OF assms]] by simp
  show "fetches (fire_timer (nextTimer c) (refresh_response d c)) =
            fetches c @
              [\<lparr>fetch_method = ''POST'', fetch_path = ''/oauth2/token'',
                fetch_form = [(''client_id'', clientId c),
                              (''client_secret'', or_empty (clientSecret c)),
                              (''grant_type'', ''refresh_token''),
                              (''refresh_token'', r)],
                fetch_content_type = ''application/x-www-form-urlencoded'',
                fetch_authorization = (if a = [] then None else Some (ty @ '' '' @ a))\<rparr>]"
    unfolding r fire_timer_def m
    by (simp add: run_callback_def refreshAccessToken_def emit_fields or_empty_def authorization_def)
qed

text \<open>
  A response without \<open>refresh_token\<close> is refused and schedules nothing; a complete one
  schedules the refresh, which posts the stored refresh token.
\<close>

theorem token_response_handling_witness:
  "well_formed (new_client ''1'' (Some ''s3cret'')) \<and>
   hanleAccessTokenResponse no_refresh_token (new_client ''1'' (Some ''s3cret'')) =
     Inl (InvalidAccessTokenResponse no_refresh_token) \<and>
   timers (refresh_response no_refresh_token (new_client ''1'' (Some ''s3cret''))) = [] \<and>
   refreshToken (refresh_response full_tokens (new_client ''1'' (Some ''s3cret''))) = Some ''R1'' \<and>
   timers (refresh_response full_tokens (new_client ''1'' (Some ''s3cret''))) =
     [(0, 604800, RefreshAccessToken)] \<and>
   fetches (fire_timer 0 (refresh_response full_tokens (new_client ''1'' (Some ''s3cret'')))) =
     [\<lparr>fetch_method = ''POST'', fetch_path = ''/oauth2/token'',
       fetch_form = [(''client_id'', ''1''), (''client_secret'', ''s3cret''),
                     (''grant_type'', ''refresh_token''), (''refresh_token'', ''R1'')],
       fetch_content_type = ''application/x-www-form-urlencoded'',
       fetch_authorization = Some ''Bearer A1''\<rparr>]"
proof -
  let ?c = "new_client ''1'' (Some ''s3cret'')"
  have w: "well_formed ?c" by (rule well_formed_new_client)
  have missing: "access_token no_refresh_token = None \<or> refresh_token no_refresh_token = None \<or>
      token_type no_refresh_token = None \<or> expires_in no_refresh_token = None"
    by (simp add: no_refresh_token_def)
  have present: "access_token full_tokens = Some ''A1'' \<and> refresh_token full_tokens = Some ''R1'' \<and>
      token_type full_tokens = Some ''Bearer'' \<and> expires_in full_tokens = Some 604800"
    by (simp add: full_tokens_def)
  have fields: "nextTimer ?c = 0" "timers ?c = []" "fetches ?c = []" "clientId ?c = ''1''"
    "or_empty (clientSecret ?c) = ''s3cret''"
    by (simp_all add: new_client_def or_empty_def)
  from token_response_handling [OF w, of no_refresh_token] missing
  have first: "hanleAccessTokenResponse no_refresh_token ?c =
      Inl (InvalidAccessTokenResponse no_refresh_token) \<and>
      timers (refresh_response no_refresh_token ?c) = timers ?c"
    by blast
  from token_response_handling [OF w, of full_tokens "''A1''" "''R1''" "''Bearer''" 604800] present
  have second: "refreshToken (refresh_response full_tokens ?c) = Some ''R1'' \<and>
      timers (refresh_response full_tokens ?c) = timers ?c @ [(nextTimer ?c, 604800, RefreshAccessToken)] \<and>
      fetches (fire_timer (nextTimer ?c) (refresh_response full_tokens ?c)) =
        fetches ?c @
          [\<lparr>fetch_method = ''POST'', fetch_path = ''/oauth2/token'',
            fetch_form = [(''client_id'', clientId ?c),
                          (''client_secret'', or_empty (clientSecret ?c)),
                          (''grant_type'', ''refresh_token''),
                          (''refresh_token'', ''R1'')],
            fetch_content_type = ''application/x-www-form-urlencoded'',
            fetch_authorization = (if ''A1'' = [] then None else Some (''Bearer'' @ '' '' @ ''A1''))\<rparr>]"
    by blast
  from w first second show ?thesis
    by (simp add: fields)
qed

subsection \<open>C7: connect while a connection attempt is in flight\<close>

text \<open>
  Claim C7 as stated has a second call return the very same future as the first.
  \<open>connect\<close> is an \<open>async\<close> method, so each call returns a future of its own: two
  calls in a row on a new client return two different futures, which adopt the same
  promise.
\<close>

theorem connect_returns_new_future_counterexample:
  "fst (connect (new_client ''1'' None)) = Future 0 (ConnectPromise 0) \<and>
   fst (connect (snd (connect (new_client ''1'' None)))) = Future 1 (ConnectPromise 0) \<and>
   fst (connect (snd (connect (new_client ''1'' None)))) \<noteq> fst (connect (new_client ''1'' None))"
  by (simp add: connect_def new_client_def Let_def)

text \<open>
  Claim C7, as amended. Every call of \<open>connect\<close> returns a new future. While a
  connection promise is stored, the future adopts that promise and the call does
  nothing else: no timer, no listener, no call of the transport's \<open>connect\<close>. With no
  promise stored the call creates one, stores it and calls the transport's \<open>connect\<close>
  once, and its future adopts the new promise; the future of a second call right after
  adopts the same promise, so that in every later state the two futures are settled
  alike, and the second call starts nothing. The transport's \<open>connect\<close> is called
  exactly when no promise is stored.
\<close>

theorem connect_shares_in_flight_promise:
  "(connectionPromise c = Some p \<longrightarrow>
      fst (connect c) = Future (connectCalls c) p \<and>
      snd (connect c) = c\<lparr>connectCalls := Suc (connectCalls c)\<rparr>) \<and>
   (connectionPromise c = None \<longrightarrow>
      fst (connect c) = Future (connectCalls c) (ConnectPromise (nextPromise c)) \<and>
      connectionPromise (snd (connect c)) = Some (ConnectPromise (nextPromise c)) \<and>
      transportCalls (snd (connect c)) = transportCalls c @ [TConnect (nextPromise c)] \<and>
      fst (connect (snd (connect c))) =
        Future (Suc (connectCalls c)) (ConnectPromise (nextPromise c)) \<and>
      snd (connect (snd (connect c))) =
        (snd (connect c))\<lparr>connectCalls := Suc (Suc (connectCalls c))\<rparr> \<and>
      future_state later (fst (connect (snd (connect c)))) = future_state later (fst (connect c))) \<and>
   (transportCalls (snd (connect c)) \<noteq> transportCalls c) = (connectionPromise c = None)"
  by (auto simp add: connect_def future_state_def Let_def split: option.splits)

text \<open>
  Two calls in a row on a new client: two futures, one promise, one call of the
  transport's \<open>connect\<close>; once the attempt has failed both futures are rejected.
\<close>

theorem connect_shares_in_flight_promise_witness:
  "adopted (fst (connect (new_client ''1'' None))) = ConnectPromise 0 \<and>
   adopted (fst (connect (snd (connect (new_client ''1'' None))))) = ConnectPromise 0 \<and>
   call (fst (connect (new_client ''1'' None))) = 0 \<and>
   call (fst (connect (snd (connect (new_client ''1'' None))))) = 1 \<and>
   transportCalls (snd (connect (snd (connect (new_client ''1'' None))))) = [TConnect 0] \<and>
   future_state failed_attempt (fst (connect (snd (connect (new_client ''1'' None))))) =
     future_state failed_attempt (fst (connect (new_client ''1'' None)))"
proof -
  let ?c = "new_client ''1'' None"
  have n: "connectionPromise ?c = None" "connectCalls ?c = 0" "nextPromise ?c = 0"
    "transportCalls ?c = []"
    by (simp_all add: new_client_def)
  note th = connect_shares_in_flight_promise [where c = ?c and p = "ConnectPromise 0"
      and later = failed_attempt]
  from th n(1) have a:
    "fst (connect ?c) = Future (connectCalls ?c) (ConnectPromise (nextPromise ?c))"
    "transportCalls (snd (connect ?c)) = transportCalls ?c @ [TConnect (nextPromise ?c)]"
    "fst (connect (snd (connect ?c))) = Future (Suc (connectCalls ?c)) (ConnectPromise (nextPromise ?c))"
    "snd (connect (snd (connect ?c))) = (snd (connect ?c))\<lparr>connectCalls := Suc (Suc (connectCalls ?c))\<rparr>"
    "future_state failed_attempt (fst (connect (snd (connect ?c)))) =
       future_state failed_attempt (fst (connect ?c))"
    by blast+
  from a(4) have "transportCalls (snd (connect (snd (connect ?c)))) = transportCalls (snd (connect ?c))"
    by simp
  with a(1,2,3,5) show ?thesis by (simp add: n)
qed

subsection \<open>C8: the ten-second bound of connect\<close>

text \<open>
  Claim C8 as stated has the promise rejected with the connection-timeout error whenever
  the handshake has not arrived when the timer fires. When the transport's \<open>connect\<close>
  has rejected in the meantime, the promise carries the transport's error, and the
  timeout only clears the stored promise.
\<close>

theorem timeout_after_transport_failure_counterexample:
  "promise_state (fire_timer 0 failed_attempt) (ConnectPromise 0) =
     Settled (Rejected (Error ''Failed to connect to websocket'')) \<and>
   connectionPromise (fire_timer 0 failed_attempt) = None"
  by (simp add: failed_attempt_def new_client_def connect_def Let_def transport_connect_rejected_def
        settle_def fire_timer_def run_callback_def promise_state_def)

text \<open>
  Claim C8, as amended. \<open>connect\<close> schedules a timer of 10000 milliseconds, and the
  future it returns adopts the new connection promise. Let any
  events follow that neither emit \<open>connected\<close> nor fire a connection timeout. When
  the timer fires then, the stored promise is cleared, and the promise is rejected with
  the connection-timeout error (message \<open>Connection timed out\<close>) if it was still
  pending, which it is unless the transport's \<open>connect\<close> has rejected; a promise
  already settled keeps its settlement. When the handshake arrives instead, the timer is
  cancelled (it cannot fire any more), the stored promise is cleared, and the promise
  resolves if it was still pending.
\<close>

theorem connect_timeout_bound:
  assumes "well_formed c" and "connectionPromise c = None" and "calm_run evs (snd (connect c))"
  shows "adopted (fst (connect c)) = ConnectPromise (nextPromise c) \<and>
         map_of (timers (snd (connect c))) (nextTimer c) =
           Some (10000, ConnectTimeout (nextPromise c)) \<and>
         ((\<forall>ev\<in>set evs. \<not> rejects (nextPromise c) ev) \<longrightarrow>
            promise_state (run evs (snd (connect c))) (ConnectPromise (nextPromise c)) = Pending) \<and>
         connectionPromise (fire_timer (nextTimer c) (run evs (snd (connect c)))) = None \<and>
         promise_state (fire_timer (nextTimer c) (run evs (snd (connect c))))
             (ConnectPromise (nextPromise c)) =
           (case promise_state (run evs (snd (connect c))) (ConnectPromise (nextPromise c)) of
              Pending \<Rightarrow> Settled (Rejected (RPCError \<lparr>code = RPC_CONNECTION_TIMEOUT,
                                                       message = Some ''Connection timed out''\<rparr>))
            | Settled v \<Rightarrow> Settled v) \<and>
         (is_handshake m \<longrightarrow>
            connectionPromise (on_message m (run evs (snd (connect c)))) = None \<and>
            map_of (timers (on_message m (run evs (snd (connect c))))) (nextTimer c) = None \<and>
            fire_timer (nextTimer c) (on_message m (run evs (snd (connect c)))) =
              on_message m (run evs (snd (connect c))) \<and>
            promise_state (on_message m (run evs (snd (connect c)))) (ConnectPromise (nextPromise c)) =
              (case promise_state (run evs (snd (connect c))) (ConnectPromise (nextPromise c)) of
                 Pending \<Rightarrow> Settled (Resolved Void)
               | Settled v \<Rightarrow> Settled v))"
proof -
  let ?k = "nextPromise c" and ?t = "nextTimer c"
  let ?c1 = "snd (connect c)"
  let ?c2 = "run evs ?c1"
  note fresh = fresh_connect_in_flight [OF assms(1,2)]
  from fresh(1) have t1: "map_of (timers ?c1) ?t = Some (10000, ConnectTimeout ?k)"
    by (simp add: in_flight_def)
  from fresh(1) assms(3) have f2: "in_flight ?k ?t ?c2" by (rule run_in_flight)
  have p2: "promise_state ?c2 (ConnectPromise ?k) = Pending"
    if "\<forall>ev\<in>set evs. \<not> rejects ?k ev"
  proof -
    from run_calls_connect [OF assms(3) that] fresh(3)
    have "calls_on (ConnectPromise ?k) ?c2 = []" by simp
    then show ?thesis by (simp add: promise_state_calls)
  qed
  have timeout: "promise_state (fire_timer ?t ?c2) (ConnectPromise ?k) =
           (case promise_state ?c2 (ConnectPromise ?k) of
              Pending \<Rightarrow> Settled (Rejected (RPCError \<lparr>code = RPC_CONNECTION_TIMEOUT,
                                                       message = Some ''Connection timed out''\<rparr>))
            | Settled v \<Rightarrow> Settled v)"
    by (simp add: fire_in_flight [OF f2] promise_state_settle)
  have cleared: "connectionPromise (fire_timer ?t ?c2) = None"
    by (simp add: fire_in_flight [OF f2] settle_def)
  have hs: "connectionPromise (on_message m ?c2) = None \<and>
            map_of (timers (on_message m ?c2)) ?t = None \<and>
            fire_timer ?t (on_message m ?c2) = on_message m ?c2 \<and>
            promise_state (on_message m ?c2) (ConnectPromise ?k) =
              (case promise_state ?c2 (ConnectPromise ?k) of
                 Pending \<Rightarrow> Settled (Resolved Void)
               | Settled v \<Rightarrow> Settled v)"
    if h: "is_handshake m"
  proof -
    from f2 have mem: "(?t, ?k) \<in> set (connectedOnce ?c2)" by (simp add: in_flight_def)
    from map_of_constant_value [OF mem, of "\<lambda>l. ConnectPromise (snd l)" "Resolved Void"]
    have "promise_state (on_message m ?c2) (ConnectPromise ?k) =
              (case promise_state ?c2 (ConnectPromise ?k) of
                 Pending \<Rightarrow> Settled (Resolved Void)
               | Settled v \<Rightarrow> Settled v)"
      by (simp add: promise_state_def on_message_settlements h map_add_def split: option.splits)
    moreover from handshake_eq [OF h, of ?c2] obtain u hh where
      e: "on_message m ?c2 = emit (Some ''connected'') NoArg (?c2\<lparr>user := u, cdnHost := hh\<rparr>)"
      by blast
    from mem have "connectionPromise (on_message m ?c2) = None"
      by (auto simp add: e emit_connectionPromise)
    moreover from map_of_fold_delete_mem [OF mem, of "timers ?c2"]
    have gone: "map_of (timers (on_message m ?c2)) ?t = None"
      by (simp add: e emit_timers)
    moreover from gone have "fire_timer ?t (on_message m ?c2) = on_message m ?c2"
      by (simp add: fire_timer_def)
    ultimately show ?thesis by simp
  qed
  from assms(2) have ad: "adopted (fst (connect c)) = ConnectPromise ?k"
    by (simp add: connect_def Let_def)
  from ad t1 p2 timeout cleared hs show ?thesis by blast
qed

text \<open>
  A new client connects and sends a request; then either the timer fires and the promise
  is rejected with the timeout error, or the handshake arrives, the promise resolves and
  the timer is gone.
\<close>

theorem connect_timeout_bound_witness:
  "well_formed (new_client ''1'' None) \<and>
   calm_run [CallRequest ''GET_GUILDS'' ''{}'' None ''n1''] (snd (connect (new_client ''1'' None))) \<and>
   adopted (fst (connect (new_client ''1'' None))) = ConnectPromise 0 \<and>
   map_of (timers (snd (connect (new_client ''1'' None)))) 0 = Some (10000, ConnectTimeout 0) \<and>
   promise_state
     (fire_timer 0 (run [CallRequest ''GET_GUILDS'' ''{}'' None ''n1''] (snd (connect (new_client ''1'' None)))))
     (ConnectPromise 0) =
     Settled (Rejected (RPCError \<lparr>code = RPC_CONNECTION_TIMEOUT,
                                    message = Some ''Connection timed out''\<rparr>)) \<and>
   promise_state
     (on_message ready_dispatch
        (run [CallRequest ''GET_GUILDS'' ''{}'' None ''n1''] (snd (connect (new_client ''1'' None)))))
     (ConnectPromise 0) = Settled (Resolved Void) \<and>
   map_of (timers (on_message ready_dispatch
        (run [CallRequest ''GET_GUILDS'' ''{}'' None ''n1''] (snd (connect (new_client ''1'' None)))))) 0 = None"
proof -
  let ?c = "new_client ''1'' None"
  let ?evs = "[CallRequest ''GET_GUILDS'' ''{}'' None ''n1'']"
  have w: "well_formed ?c" by (rule well_formed_new_client)
  have n: "connectionPromise ?c = None" by (simp add: new_client_counters)
  have q: "calm_run ?evs (snd (connect ?c))" by (simp add: calm_def)
  have r: "\<forall>ev\<in>set ?evs. \<not> rejects (nextPromise ?c) ev" by (simp add: rejects_def)
  have h: "is_handshake ready_dispatch" by (simp add: is_handshake_def ready_dispatch_def)
  note th = connect_timeout_bound [OF w n q, of ready_dispatch]
  from th r have p: "promise_state (run ?evs (snd (connect ?c))) (ConnectPromise (nextPromise ?c)) = Pending"
    by blast
  from th h p w q show ?thesis by (simp add: new_client_counters)
qed

subsection \<open>C9: the socket transport after a failed connection\<close>

text \<open>
  Claim C9 fails on the code. When every probe errors on a fresh transport,
  \<open>connect\<close> rejects and no handler is wired, so nothing is emitted; but after
  \<open>reject\<close> the executor goes on to assign \<open>this.ws!.onmessage\<close> with \<open>this.ws\<close>
  unset, which throws a \<open>TypeError\<close> inside the executor.
\<close>

theorem failed_connect_touches_absent_socket:
  "outcome (WebsocketTransport_connect (\<lambda>u. Errored) cid \<lparr>ws = None, wired = []\<rparr>) =
     Some (Rejected (Error ''Failed to connect to websocket'')) \<and>
   thrown (WebsocketTransport_connect (\<lambda>u. Errored) cid \<lparr>ws = None, wired = []\<rparr>) =
     Some (TypeError ''Cannot set properties of undefined'') \<and>
   socket_message parse s frame
     (after (WebsocketTransport_connect (\<lambda>u. Errored) cid \<lparr>ws = None, wired = []\<rparr>)) = Inr [] \<and>
   socket_close s
     (after (WebsocketTransport_connect (\<lambda>u. Errored) cid \<lparr>ws = None, wired = []\<rparr>)) = []"
proof -
  have "probe_from (\<lambda>u. Errored) cid 0 = (map (url cid) [0..<10], Exhausted)"
    by (intro probe_from_errored) simp
  then show ?thesis
    by (simp add: WebsocketTransport_connect_def socket_message_def socket_close_def)
qed

subsection \<open>C10: a rejected connection attempt stays stored\<close>

text \<open>
  Claim C10 as stated has every later call of \<open>connect\<close> return the same promise,
  already rejected. Each call returns a future of its own: after the transport's
  \<open>connect\<close> has rejected, two calls return two different futures, which adopt the
  rejected promise.
\<close>

theorem rejected_promise_new_future_counterexample:
  "promise_state failed_attempt (ConnectPromise 0) =
     Settled (Rejected (Error ''Failed to connect to websocket'')) \<and>
   fst (connect failed_attempt) = Future 1 (ConnectPromise 0) \<and>
   fst (connect (snd (connect failed_attempt))) = Future 2 (ConnectPromise 0) \<and>
   fst (connect (snd (connect failed_attempt))) \<noteq> fst (connect failed_attempt)"
  by (simp add: failed_attempt_def new_client_def connect_def Let_def
        transport_connect_rejected_def settle_def promise_state_def)

text \<open>
  Claim C10, as amended. Let the transport's \<open>connect\<close> reject while the attempt is
  in flight. The stored promise is not cleared. Through every later run of events that
  neither fires a connection timeout nor emits \<open>connected\<close>, the promise stays stored
  and rejected with the transport's error; every call of \<open>connect\<close> returns a future
  that adopts it, and so is rejected with that error, and does nothing else; and the
  transport's \<open>connect\<close> is not called again. When the timeout fires, the stored
  promise is cleared; the promise itself keeps the transport's error.
\<close>

theorem rejected_attempt_stays_stored:
  assumes "in_flight k t c" and "promise_state c (ConnectPromise k) = Pending"
    and "calm_run evs (transport_connect_rejected k err c)"
  shows "connectionPromise (transport_connect_rejected k err c) = Some (ConnectPromise k) \<and>
         connectionPromise (run evs (transport_connect_rejected k err c)) = Some (ConnectPromise k) \<and>
         promise_state (run evs (transport_connect_rejected k err c)) (ConnectPromise k) =
           Settled (Rejected err) \<and>
         adopted (fst (connect (run evs (transport_connect_rejected k err c)))) = ConnectPromise k \<and>
         snd (connect (run evs (transport_connect_rejected k err c))) =
           (run evs (transport_connect_rejected k err c))
             \<lparr>connectCalls := Suc (connectCalls (run evs (transport_connect_rejected k err c)))\<rparr> \<and>
         future_state (snd (connect (run evs (transport_connect_rejected k err c))))
           (fst (connect (run evs (transport_connect_rejected k err c)))) = Settled (Rejected err) \<and>
         filter is_connect_call (transportCalls (run evs (transport_connect_rejected k err c))) =
           filter is_connect_call (transportCalls c) \<and>
         connectionPromise (fire_timer t (run evs (transport_connect_rejected k err c))) = None \<and>
         promise_state (fire_timer t (run evs (transport_connect_rejected k err c))) (ConnectPromise k) =
           Settled (Rejected err)"
proof -
  let ?c1 = "transport_connect_rejected k err c"
  let ?c2 = "run evs ?c1"
  from assms(1) have c1: "?c1 = settle (ConnectPromise k) (Rejected err) c"
    by (simp add: transport_connect_rejected_def in_flight_def)
  with assms(1) have f1: "in_flight k t ?c1" by simp
  from c1 assms(2) have s1: "promise_state ?c1 (ConnectPromise k) = Settled (Rejected err)"
    by (simp add: promise_state_settle_pending)
  from f1 assms(3) have f2: "in_flight k t ?c2" by (rule run_in_flight)
  from s1 have s2: "promise_state ?c2 (ConnectPromise k) = Settled (Rejected err)"
    by (rule run_settled_stays)
  from f1 have "connectionPromise ?c1 = Some (ConnectPromise k)" by (simp add: in_flight_def)
  moreover from f2 have cp: "connectionPromise ?c2 = Some (ConnectPromise k)" by (simp add: in_flight_def)
  moreover from cp have co: "adopted (fst (connect ?c2)) = ConnectPromise k"
    "snd (connect ?c2) = ?c2\<lparr>connectCalls := Suc (connectCalls ?c2)\<rparr>"
    by (simp_all add: connect_def)
  moreover from co s2 have "future_state (snd (connect ?c2)) (fst (connect ?c2)) = Settled (Rejected err)"
    by (simp add: future_state_def promise_state_def)
  moreover from run_connect_calls [OF f1 assms(3)] c1
  have "filter is_connect_call (transportCalls ?c2) = filter is_connect_call (transportCalls c)"
    by (simp add: settle_def)
  moreover have "connectionPromise (fire_timer t ?c2) = None"
    by (simp add: fire_in_flight [OF f2] settle_def)
  moreover from s2 have "promise_state (fire_timer t ?c2) (ConnectPromise k) = Settled (Rejected err)"
    by (simp add: fire_in_flight [OF f2] promise_state_settle_settled)
  ultimately show ?thesis using s2 by simp
qed

text \<open>
  A new client whose transport fails to connect: two further calls of \<open>connect\<close>
  and one more after them return futures of the rejected promise and do not call the
  transport; the timeout clears the stored promise.
\<close>

theorem rejected_attempt_stays_stored_witness:
  "in_flight 0 0 (snd (connect (new_client ''1'' None))) \<and>
   calm_run retries failed_attempt \<and>
   connectionPromise (run retries failed_attempt) = Some (ConnectPromise 0) \<and>
   promise_state (run retries failed_attempt) (ConnectPromise 0) =
     Settled (Rejected (Error ''Failed to connect to websocket'')) \<and>
   adopted (fst (connect (run retries failed_attempt))) = ConnectPromise 0 \<and>
   future_state (snd (connect (run retries failed_attempt)))
     (fst (connect (run retries failed_attempt))) =
     Settled (Rejected (Error ''Failed to connect to websocket'')) \<and>
   filter is_connect_call (transportCalls (run retries failed_attempt)) = [TConnect 0] \<and>
   filter is_connect_call (transportCalls (snd (connect (run retries failed_attempt)))) = [TConnect 0] \<and>
   connectionPromise (fire_timer 0 (run retries failed_attempt)) = None"
proof -
  have q: "calm_run retries failed_attempt" by (simp add: retries_def calm_def)
  have one: "filter is_connect_call (transportCalls (snd (connect (new_client ''1'' None)))) = [TConnect 0]"
    by (simp add: connect_def new_client_def Let_def is_connect_call_def)
  note th = rejected_attempt_stays_stored [OF failed_attempt_in_flight,
      of retries "Error ''Failed to connect to websocket''", folded failed_attempt_def, OF q]
  from th have calls: "filter is_connect_call (transportCalls (run retries failed_attempt)) = [TConnect 0]"
    by (simp add: one)
  from th have "snd (connect (run retries failed_attempt)) =
      (run retries failed_attempt)\<lparr>connectCalls := Suc (connectCalls (run retries failed_attempt))\<rparr>"
    by blast
  then have "transportCalls (snd (connect (run retries failed_attempt))) =
      transportCalls (run retries failed_attempt)"
    by simp
  with calls have again:
    "filter is_connect_call (transportCalls (snd (connect (run retries failed_attempt)))) = [TConnect 0]"
    by simp
  from th q calls again failed_attempt_in_flight(1) show ?thesis by blast
qed

end
